theory Spec2Isabelle
  imports Main "HOL-Library.Multiset"
begin

section \<open>Tokens and the scanner interface\<close>

text \<open>
  The parser of \<^verbatim>\<open>cmd/grv/config_parse.go\<close> consumes \<^verbatim>\<open>*ConfigToken\<close> values. A Go
  \<^verbatim>\<open>error\<close> is represented by its message (\<^verbatim>\<open>err.Error()\<close>), a nil pointer or nil error
  by \<open>None\<close>.
\<close>

text \<open>
  Modelled from the spec: the declaration of \<^verbatim>\<open>ConfigTokenType\<close> is not part of the
  parser's file; the spec lists the seven kinds Word, Option, WhiteSpace, Comment,
  Terminator, EndOfInput and Invalid.
\<close>

datatype ConfigTokenType =
  CtkWord | CtkOption | CtkWhiteSpace | CtkComment | CtkTerminator | CtkEOF | CtkInvalid

record ScannerPos =
  line :: nat
  col :: nat

text \<open>
  Modelled from the spec: the struct \<^verbatim>\<open>ConfigToken\<close> is declared with the scanner; the parser
  reads its fields \<^verbatim>\<open>tokenType\<close>, \<^verbatim>\<open>value\<close>, \<^verbatim>\<open>startPos\<close> and \<^verbatim>\<open>err\<close>.
\<close>

record ConfigToken =
  tokenType :: ConfigTokenType
  "value" :: string
  startPos :: ScannerPos
  err :: "string option"

text \<open>
  Modelled from the spec: \<^verbatim>\<open>ConfigTokenName\<close> belongs to the scanner; it gives a kind its
  printable name.
\<close>

fun ConfigTokenName :: "ConfigTokenType \<Rightarrow> string" where
  "ConfigTokenName CtkWord = ''Word''"
| "ConfigTokenName CtkOption = ''Option''"
| "ConfigTokenName CtkWhiteSpace = ''WhiteSpace''"
| "ConfigTokenName CtkComment = ''Comment''"
| "ConfigTokenName CtkTerminator = ''Terminator''"
| "ConfigTokenName CtkEOF = ''EndOfInput''"
| "ConfigTokenName CtkInvalid = ''Invalid''"

text \<open>
  One answer of the scanner: \<open>Inl e\<close> when \<^verbatim>\<open>Scan()\<close> fails with the error \<open>e\<close>,
  \<open>Inr t\<close> when it delivers the token \<open>t\<close>.
\<close>

type_synonym ScanResult = "string + ConfigToken"

text \<open>
  Modelled from the spec: the scanner \<^verbatim>\<open>ConfigScanner\<close> is an external collaborator, a
  pull-based source with the single operation "produce next token or fail". Its state is
  the list of answers it has yet to give; once they are used up the input is at its end and
  every further request yields an EndOfInput token at the final position.
\<close>

record ConfigScanner =
  pending :: "ScanResult list"
  endPos :: ScannerPos

definition eofToken :: "ScannerPos \<Rightarrow> ConfigToken" where
  "eofToken p = \<lparr>tokenType = CtkEOF, value = [], startPos = p, err = None\<rparr>"

definition Scan :: "ConfigScanner \<Rightarrow> ScanResult \<times> ConfigScanner" where
  "Scan sc =
     (case pending sc of
        [] \<Rightarrow> (Inr (eofToken (endPos sc)), sc)
      | r # rs \<Rightarrow> (r, sc\<lparr>pending := rs\<rparr>))"

section \<open>Commands\<close>

text \<open>
  Modelled from the spec: \<^verbatim>\<open>ContainerOrientation\<close> is declared with the views; the parser
  uses its values Dynamic, Horizontal and Vertical.
\<close>

datatype ContainerOrientation = CoDynamic | CoHorizontal | CoVertical

record ThemeCommand =
  name :: "ConfigToken option"
  component :: "ConfigToken option"
  bgcolor :: "ConfigToken option"
  fgcolor :: "ConfigToken option"

datatype ConfigCommand =
    SetCommand ConfigToken ConfigToken
  | ThemeCmd ThemeCommand
  | MapCommand ConfigToken ConfigToken ConfigToken
  | UnmapCommand ConfigToken ConfigToken
  | QuitCommand
  | NewTabCommand ConfigToken
  | RemoveTabCommand
  | AddViewCommand ConfigToken "ConfigToken list"
  | SplitViewCommand ContainerOrientation ConfigToken "ConfigToken list"

definition setCommand :: string where "setCommand = ''set''"
definition themeCommand :: string where "themeCommand = ''theme''"
definition mapCommand :: string where "mapCommand = ''map''"
definition unmapCommand :: string where "unmapCommand = ''unmap''"
definition quitCommand :: string where "quitCommand = ''q''"
definition addtabCommand :: string where "addtabCommand = ''addtab''"
definition removetabCommand :: string where "removetabCommand = ''rmtab''"
definition addviewCommand :: string where "addviewCommand = ''addview''"
definition vsplitCommand :: string where "vsplitCommand = ''vsplit''"
definition hsplitCommand :: string where "hsplitCommand = ''hsplit''"
definition splitCommand :: string where "splitCommand = ''split''"

lemmas commandNames =
  setCommand_def themeCommand_def mapCommand_def unmapCommand_def quitCommand_def
  addtabCommand_def removetabCommand_def addviewCommand_def vsplitCommand_def
  hsplitCommand_def splitCommand_def

section \<open>The parser\<close>

record ConfigParser =
  scanner :: ConfigScanner
  inputSource :: string

definition NewConfigParser :: "ConfigScanner \<Rightarrow> string \<Rightarrow> ConfigParser" where
  "NewConfigParser reader src = \<lparr>scanner = reader, inputSource = src\<rparr>"

abbreviation toks :: "ConfigParser \<Rightarrow> ScanResult list" where
  "toks parser \<equiv> pending (scanner parser)"

subsection \<open>Error strings\<close>

text \<open>\<^verbatim>\<open>%v\<close> of an unsigned integer: its decimal digits.\<close>

fun showNat :: "nat \<Rightarrow> string" where
  "showNat n =
     (if n < 10 then [''0123456789'' ! n]
      else showNat (n div 10) @ [''0123456789'' ! (n mod 10)])"

declare showNat.simps [simp del]

text \<open>
  \<^verbatim>\<open>generateConfigError\<close> writes into a \<^verbatim>\<open>bytes.Buffer\<close>; the buffer is the string built so
  far. The argument \<open>errorMessage\<close> is the message after \<^verbatim>\<open>fmt.Sprintf\<close> has filled in its
  arguments, which every caller below does by concatenation.
\<close>

definition generateConfigError :: "string \<Rightarrow> ConfigToken \<Rightarrow> string \<Rightarrow> string" where
  "generateConfigError src token errorMessage =
     (let buffer = [];
          buffer = (if src \<noteq> []
                    then ((buffer @ src) @ '':'') @
                         (showNat (line (startPos token)) @ '':'' @
                          showNat (col (startPos token)) @ '' '')
                    else buffer);
          buffer = buffer @ errorMessage;
          buffer = (case err token of
                      Some e \<Rightarrow> (buffer @ '': '') @ e
                    | None \<Rightarrow> buffer)
      in buffer)"

definition generateParseError :: "ConfigParser \<Rightarrow> ConfigToken \<Rightarrow> string \<Rightarrow> string" where
  "generateParseError parser token errorMessage =
     generateConfigError (inputSource parser) token errorMessage"

subsection \<open>Reading significant tokens\<close>

function scan :: "ConfigParser \<Rightarrow> ScanResult \<times> ConfigParser" where
  "scan parser =
     (case Scan (scanner parser) of
        (Inl e, sc) \<Rightarrow> (Inl e, parser\<lparr>scanner := sc\<rparr>)
      | (Inr token, sc) \<Rightarrow>
          if tokenType token \<noteq> CtkWhiteSpace \<and> tokenType token \<noteq> CtkComment
          then (Inr token, parser\<lparr>scanner := sc\<rparr>)
          else scan (parser\<lparr>scanner := sc\<rparr>))"
  by pat_completeness auto
termination
  by (relation "measure (\<lambda>p. length (toks p))")
     (auto simp: Scan_def eofToken_def split: list.splits)

declare scan.simps [simp del]

text \<open>
  What \<open>scan\<close> does, in closed form: it drops the leading WhiteSpace and Comment tokens and
  hands out the answer that follows them.
\<close>

definition significant :: "ScanResult \<Rightarrow> bool" where
  "significant r =
     (case r of
        Inl e \<Rightarrow> True
      | Inr t \<Rightarrow> tokenType t \<noteq> CtkWhiteSpace \<and> tokenType t \<noteq> CtkComment)"

definition setToks :: "ConfigParser \<Rightarrow> ScanResult list \<Rightarrow> ConfigParser" where
  "setToks p rs = p\<lparr>scanner := (scanner p)\<lparr>pending := rs\<rparr>\<rparr>"

lemma setToks_simps [simp]:
  "toks (setToks p rs) = rs"
  "inputSource (setToks p rs) = inputSource p"
  "endPos (scanner (setToks p rs)) = endPos (scanner p)"
  "setToks (setToks p rs) rs' = setToks p rs'"
  by (simp_all add: setToks_def)

lemma setToks_same [simp]: "setToks p (toks p) = p"
  by (simp add: setToks_def)

lemma scan_closed_form:
  "scan p =
     (case dropWhile (\<lambda>r. \<not> significant r) (toks p) of
        [] \<Rightarrow> (Inr (eofToken (endPos (scanner p))), setToks p [])
      | r # rs \<Rightarrow> (r, setToks p rs))"
proof (induction p rule: scan.induct)
  case (1 parser)
  show ?case
  proof (cases "toks parser")
    case Nil
    then have "setToks parser [] = parser"
      using setToks_same [of parser] by simp
    with Nil show ?thesis
      by (simp add: scan.simps [of parser] Scan_def eofToken_def)
  next
    case (Cons x xs)
    show ?thesis
    proof (cases x)
      case (Inl e)
      with Cons show ?thesis
        by (simp add: scan.simps [of parser] Scan_def significant_def setToks_def)
    next
      case (Inr t)
      show ?thesis
      proof (cases "tokenType t \<noteq> CtkWhiteSpace \<and> tokenType t \<noteq> CtkComment")
        case True
        with Inr Cons show ?thesis
          by (simp add: scan.simps [of parser] Scan_def significant_def setToks_def)
      next
        case False
        have step: "scan parser = scan (setToks parser xs)"
          using False Inr Cons
          by (auto simp: scan.simps [of parser] Scan_def setToks_def)
        have sc: "Scan (scanner parser) = (Inr t, (scanner parser)\<lparr>pending := xs\<rparr>)"
          using Cons Inr by (simp add: Scan_def)
        note ih = "1.IH" [OF sc [symmetric] refl False]
        have "scan (setToks parser xs) =
                (case dropWhile (\<lambda>r. \<not> significant r) xs of
                   [] \<Rightarrow> (Inr (eofToken (endPos (scanner parser))), setToks parser [])
                 | r # rs \<Rightarrow> (r, setToks parser rs))"
        proof (cases "dropWhile (\<lambda>r. \<not> significant r) xs")
          case Nil
          from ih show ?thesis by (simp add: setToks_def Nil)
        next
          case (Cons y ys)
          from ih show ?thesis by (simp add: setToks_def Cons)
        qed
        with step False Inr Cons show ?thesis
          by (auto simp: significant_def)
      qed
    qed
  qed
qed

lemma scan_shrinks:
  "scan p = (r, p') \<Longrightarrow> length (toks p') \<le> length (toks p)"
  using length_dropWhile_le [of "\<lambda>r. \<not> significant r" "toks p"]
  by (auto simp: scan_closed_form split: list.splits)

lemma scan_consumes:
  "scan p = (Inr t, p') \<Longrightarrow> tokenType t \<noteq> CtkEOF \<or> err t \<noteq> None \<Longrightarrow>
     length (toks p') < length (toks p)"
  using length_dropWhile_le [of "\<lambda>r. \<not> significant r" "toks p"]
  by (auto simp: scan_closed_form eofToken_def split: list.splits)

subsection \<open>Recovery\<close>

function discardTokensUntilNextCommand :: "ConfigParser \<Rightarrow> ConfigParser" where
  "discardTokensUntilNextCommand parser =
     (case scan parser of
        (Inl e, parser') \<Rightarrow> parser'
      | (Inr token, parser') \<Rightarrow>
          if tokenType token = CtkTerminator \<or> tokenType token = CtkEOF
          then parser'
          else discardTokensUntilNextCommand parser')"
  by pat_completeness auto
termination
  by (relation "measure (\<lambda>p. length (toks p))") (auto dest: scan_consumes [OF sym])

declare discardTokensUntilNextCommand.simps [simp del]

subsection \<open>Command constructors\<close>

text \<open>
  A constructor returns the pair \<^verbatim>\<open>(ConfigCommand, error)\<close> of the Go function; \<open>None\<close>
  stands for the run-time panic of an index out of range.
\<close>

type_synonym ConstructorResult = "(ConfigCommand option \<times> string option) option"

type_synonym commandConstructor =
  "ConfigParser \<Rightarrow> ConfigToken \<Rightarrow> ConfigToken list \<Rightarrow> ConstructorResult"

definition setCommandConstructor :: commandConstructor where
  "setCommandConstructor parser commandToken tokens =
     (if length tokens < 2 then None
      else Some (Some (SetCommand (tokens ! 0) (tokens ! 1)), None))"

definition optionSetters :: "string \<rightharpoonup> (ConfigToken \<Rightarrow> ThemeCommand \<Rightarrow> ThemeCommand)" where
  "optionSetters =
     map_of
       [(''--name'', \<lambda>name' themeCommand. themeCommand\<lparr>name := Some name'\<rparr>),
        (''--component'', \<lambda>component' themeCommand. themeCommand\<lparr>component := Some component'\<rparr>),
        (''--bgcolor'', \<lambda>bgcolor' themeCommand. themeCommand\<lparr>bgcolor := Some bgcolor'\<rparr>),
        (''--fgcolor'', \<lambda>fgcolor' themeCommand. themeCommand\<lparr>fgcolor := Some fgcolor'\<rparr>)]"

text \<open>
  The loop of \<^verbatim>\<open>themeCommandConstructor\<close> steps through the tokens two at a time while
  \<^verbatim>\<open>i+1 < len(tokens)\<close>; the list argument is \<^verbatim>\<open>tokens[i:]\<close>, \<open>theme\<close> is the struct the setters write to (the
  local \<^verbatim>\<open>themeCommand\<close>). \<open>Inr\<close> is the early return with an error.
\<close>

fun themeCommandConstructor_loop ::
  "ConfigParser \<Rightarrow> ConfigToken list \<Rightarrow> ThemeCommand \<Rightarrow> ThemeCommand + string" where
  \<open>themeCommandConstructor_loop parser (optionToken # valueToken # rest) theme =
     (case optionSetters (value optionToken) of
        None \<Rightarrow>
          Inr (generateParseError parser optionToken
                 (''Invalid option for theme command: "'' @ value optionToken @ ''"''))
      | Some optionSetter \<Rightarrow>
          themeCommandConstructor_loop parser rest (optionSetter valueToken theme))\<close>
| "themeCommandConstructor_loop parser tokens theme = Inl theme"

definition themeCommandConstructor :: commandConstructor where
  "themeCommandConstructor parser commandToken tokens =
     (case themeCommandConstructor_loop parser tokens
             \<lparr>name = None, component = None, bgcolor = None, fgcolor = None\<rparr> of
        Inr e \<Rightarrow> Some (None, Some e)
      | Inl theme \<Rightarrow> Some (Some (ThemeCmd theme), None))"

definition mapCommandConstructor :: commandConstructor where
  "mapCommandConstructor parser commandToken tokens =
     (if length tokens < 3 then None
      else Some (Some (MapCommand (tokens ! 0) (tokens ! 1) (tokens ! 2)), None))"

definition unmapCommandConstructor :: commandConstructor where
  "unmapCommandConstructor parser commandToken tokens =
     (if length tokens < 2 then None
      else Some (Some (UnmapCommand (tokens ! 0) (tokens ! 1)), None))"

definition quitCommandConstructor :: commandConstructor where
  "quitCommandConstructor parser commandToken tokens = Some (Some QuitCommand, None)"

definition newTabCommandConstructor :: commandConstructor where
  "newTabCommandConstructor parser commandToken tokens =
     (if length tokens < 1 then None
      else Some (Some (NewTabCommand (tokens ! 0)), None))"

definition newRemoveTabCommandConstructor :: commandConstructor where
  "newRemoveTabCommandConstructor parser commandToken tokens =
     Some (Some RemoveTabCommand, None)"

definition addViewCommandConstructor :: commandConstructor where
  "addViewCommandConstructor parser commandToken tokens =
     (if length tokens < 1
      then (let addViewCommand = value commandToken
            in Some (None, Some (generateParseError parser commandToken
                 (''Invalid '' @ addViewCommand @ '' command. Usage: '' @ addViewCommand @
                  '' [VIEW] [ARGS...]''))))
      else Some (Some (AddViewCommand (tokens ! 0) (drop 1 tokens)), None))"

definition splitViewCommandConstructor :: commandConstructor where
  "splitViewCommandConstructor parser commandToken tokens =
     (let splitViewCommand = value commandToken in
      if length tokens < 1
      then Some (None, Some (generateParseError parser commandToken
             (''Invalid '' @ splitViewCommand @ '' command. Usage: '' @ splitViewCommand @
              '' [VIEW] [ARGS...]'')))
      else if splitViewCommand = splitCommand
      then Some (Some (SplitViewCommand CoDynamic (tokens ! 0) (drop 1 tokens)), None)
      else if splitViewCommand = hsplitCommand
      then Some (Some (SplitViewCommand CoHorizontal (tokens ! 0) (drop 1 tokens)), None)
      else if splitViewCommand = vsplitCommand
      then Some (Some (SplitViewCommand CoVertical (tokens ! 0) (drop 1 tokens)), None)
      else Some (None, Some (generateParseError parser commandToken
             (''Unrecognised command: '' @ splitViewCommand))))"

subsection \<open>The grammar registry\<close>

record commandDescriptor =
  tokenTypes :: "ConfigTokenType list"
  varArgs :: bool
  constructor :: commandConstructor

definition commandDescriptors :: "string \<rightharpoonup> commandDescriptor" where
  "commandDescriptors =
     map_of
       [(setCommand,
           \<lparr>tokenTypes = [CtkWord, CtkWord], varArgs = False,
            constructor = setCommandConstructor\<rparr>),
        (themeCommand,
           \<lparr>tokenTypes = [CtkOption, CtkWord, CtkOption, CtkWord,
                           CtkOption, CtkWord, CtkOption, CtkWord],
            varArgs = False, constructor = themeCommandConstructor\<rparr>),
        (mapCommand,
           \<lparr>tokenTypes = [CtkWord, CtkWord, CtkWord], varArgs = False,
            constructor = mapCommandConstructor\<rparr>),
        (unmapCommand,
           \<lparr>tokenTypes = [CtkWord, CtkWord], varArgs = False,
            constructor = unmapCommandConstructor\<rparr>),
        (quitCommand,
           \<lparr>tokenTypes = [], varArgs = False, constructor = quitCommandConstructor\<rparr>),
        (addtabCommand,
           \<lparr>tokenTypes = [CtkWord], varArgs = False,
            constructor = newTabCommandConstructor\<rparr>),
        (removetabCommand,
           \<lparr>tokenTypes = [], varArgs = False,
            constructor = newRemoveTabCommandConstructor\<rparr>),
        (addviewCommand,
           \<lparr>tokenTypes = [], varArgs = True, constructor = addViewCommandConstructor\<rparr>),
        (vsplitCommand,
           \<lparr>tokenTypes = [], varArgs = True, constructor = splitViewCommandConstructor\<rparr>),
        (hsplitCommand,
           \<lparr>tokenTypes = [], varArgs = True, constructor = splitViewCommandConstructor\<rparr>),
        (splitCommand,
           \<lparr>tokenTypes = [], varArgs = True, constructor = splitViewCommandConstructor\<rparr>)]"

subsection \<open>Parsing one command\<close>

text \<open>
  The triple \<^verbatim>\<open>(command, eof, err)\<close> that \<^verbatim>\<open>Parse\<close>, \<^verbatim>\<open>parseCommand\<close> and
  \<^verbatim>\<open>parseVarArgsCommand\<close> return, with the parser as the call leaves it; \<open>None\<close> is a panic.
\<close>

type_synonym ParseResult = "ConfigCommand option \<times> bool \<times> string option"

text \<open>
  The loop of \<^verbatim>\<open>parseVarArgsCommand\<close>: \<open>Inl tokens\<close> when it breaks out at an EndOfInput
  or Terminator token, \<open>Inr e\<close> when it returns early with the error \<open>e\<close>.
\<close>

function parseVarArgsCommand_loop ::
  "ConfigParser \<Rightarrow> ConfigToken list \<Rightarrow> (ConfigToken list + string) \<times> ConfigParser" where
  "parseVarArgsCommand_loop parser tokens =
     (case scan parser of
        (Inl e, parser') \<Rightarrow> (Inr e, parser')
      | (Inr token, parser') \<Rightarrow>
          if err token \<noteq> None
          then (Inr (generateParseError parser' token ''Syntax Error''), parser')
          else if tokenType token = CtkEOF then (Inl tokens, parser')
          else if tokenType token = CtkTerminator then (Inl tokens, parser')
          else parseVarArgsCommand_loop parser' (tokens @ [token]))"
  by pat_completeness auto
termination
  by (relation "measure (\<lambda>(p, ts). length (toks p))") (auto dest: scan_consumes [OF sym])

declare parseVarArgsCommand_loop.simps [simp del]

definition parseVarArgsCommand ::
  "ConfigParser \<Rightarrow> commandDescriptor \<Rightarrow> ConfigToken \<Rightarrow> (ParseResult \<times> ConfigParser) option" where
  "parseVarArgsCommand parser commandDescriptor commandToken =
     (case parseVarArgsCommand_loop parser [] of
        (Inr e, parser') \<Rightarrow> Some ((None, False, Some e), parser')
      | (Inl tokens, parser') \<Rightarrow>
          (case constructor commandDescriptor parser' commandToken tokens of
             None \<Rightarrow> None
           | Some (command, e) \<Rightarrow> Some ((command, False, e), parser')))"

text \<open>
  The loop of \<^verbatim>\<open>parseCommand\<close> over \<^verbatim>\<open>commandDescriptor.tokenTypes\<close>; the list argument is
  the kinds still expected. \<open>Inr (eof, e)\<close> is an early return.
\<close>

fun parseCommand_loop ::
  "ConfigParser \<Rightarrow> ConfigTokenType list \<Rightarrow> ConfigToken list \<Rightarrow>
     (ConfigToken list + bool \<times> string) \<times> ConfigParser" where
  "parseCommand_loop parser [] tokens = (Inl tokens, parser)"
| \<open>parseCommand_loop parser (expectedConfigTokenType # rest) tokens =
     (case scan parser of
        (Inl e, parser') \<Rightarrow> (Inr (False, e), parser')
      | (Inr token, parser') \<Rightarrow>
          if err token \<noteq> None
          then (Inr (False, generateParseError parser' token ''Syntax Error''), parser')
          else if tokenType token = CtkEOF
          then (Inr (True, generateParseError parser' token ''Unexpected EOF''), parser')
          else if tokenType token \<noteq> expectedConfigTokenType
          then (Inr (False, generateParseError parser' token
                  (''Expected '' @ ConfigTokenName expectedConfigTokenType @ '' but got '' @
                   ConfigTokenName (tokenType token) @ '': "'' @ value token @ ''"'')), parser')
          else parseCommand_loop parser' rest (tokens @ [token]))\<close>

definition parseCommand ::
  "ConfigParser \<Rightarrow> ConfigToken \<Rightarrow> (ParseResult \<times> ConfigParser) option" where
  \<open>parseCommand parser commandToken =
     (case commandDescriptors (value commandToken) of
        None \<Rightarrow>
          Some ((None, False,
                 Some (generateParseError parser commandToken
                         (''Invalid command "'' @ value commandToken @ ''"''))), parser)
      | Some commandDescriptor \<Rightarrow>
          if varArgs commandDescriptor
          then parseVarArgsCommand parser commandDescriptor commandToken
          else (case parseCommand_loop parser (tokenTypes commandDescriptor) [] of
                  (Inr (eof, e), parser') \<Rightarrow> Some ((None, eof, Some e), parser')
                | (Inl tokens, parser') \<Rightarrow>
                    (case constructor commandDescriptor parser' commandToken tokens of
                       None \<Rightarrow> None
                     | Some (command, e) \<Rightarrow> Some ((command, False, e), parser'))))\<close>

subsection \<open>The driver\<close>

text \<open>
  The \<^verbatim>\<open>switch\<close> of \<^verbatim>\<open>Parse\<close> for a leading token that is not a Terminator (a Terminator
  makes the loop read again).
\<close>

definition Parse_switch ::
  "ConfigParser \<Rightarrow> ConfigToken \<Rightarrow> (ParseResult \<times> ConfigParser) option" where
  \<open>Parse_switch parser token =
     (case tokenType token of
        CtkWord \<Rightarrow> parseCommand parser token
      | CtkEOF \<Rightarrow> Some ((None, True, None), parser)
      | CtkOption \<Rightarrow>
          Some ((None, False,
                 Some (generateParseError parser token
                         (''Unexpected Option "'' @ value token @ ''"''))), parser)
      | CtkInvalid \<Rightarrow>
          Some ((None, False, Some (generateParseError parser token ''Syntax Error'')), parser)
      | _ \<Rightarrow>
          Some ((None, False,
                 Some (generateParseError parser token
                         (''Unexpected token "'' @ value token @ ''"''))), parser))\<close>

function Parse :: "ConfigParser \<Rightarrow> (ParseResult \<times> ConfigParser) option" where
  "Parse parser =
     (case scan parser of
        (Inl e, parser') \<Rightarrow> Some ((None, False, Some e), parser')
      | (Inr token, parser') \<Rightarrow>
          if tokenType token = CtkTerminator then Parse parser'
          else (case Parse_switch parser' token of
                  None \<Rightarrow> None
                | Some ((command, eof, e), parser'') \<Rightarrow>
                    if e \<noteq> None
                    then Some ((command, eof, e), discardTokensUntilNextCommand parser'')
                    else Some ((command, eof, e), parser'')))"
  by pat_completeness auto
termination
  by (relation "measure (\<lambda>p. length (toks p))") (auto dest: scan_consumes [OF sym])

declare Parse.simps [simp del]

definition InputSource :: "ConfigParser \<Rightarrow> string" where
  "InputSource parser = inputSource parser"

section \<open>Notions used in the statements\<close>

text \<open>
  The significant answers of a scanner: its failures and its tokens other than WhiteSpace and
  Comment, which \<open>scan\<close> reads over.
\<close>

definition sig :: "ScanResult list \<Rightarrow> ScanResult list" where
  "sig xs = filter significant xs"

text \<open>
  The parser \<open>p'\<close> is the parser \<open>p\<close> after some requests to the scanner: the same source
  label and final position, with the significant answers \<open>rs\<close> still to come.
\<close>

definition advanced :: "ConfigParser \<Rightarrow> ScanResult list \<Rightarrow> ConfigParser \<Rightarrow> bool" where
  "advanced p rs p' \<longleftrightarrow>
     sig (toks p') = rs \<and> inputSource p' = inputSource p \<and>
     endPos (scanner p') = endPos (scanner p)"

text \<open>
  What is left of the significant answers after the recovery of the specification: the
  answers behind the first Terminator, EndOfInput or scanner failure.
\<close>

fun afterBoundary :: "ScanResult list \<Rightarrow> ScanResult list" where
  "afterBoundary [] = []"
| "afterBoundary (Inl e # rs) = rs"
| "afterBoundary (Inr t # rs) =
     (if tokenType t = CtkTerminator \<or> tokenType t = CtkEOF then rs else afterBoundary rs)"

text \<open>
  The option/value pairs of a theme command, written out as the token list the constructor
  receives.
\<close>

fun flatten :: "(ConfigToken \<times> ConfigToken) list \<Rightarrow> ConfigToken list" where
  "flatten [] = []"
| "flatten ((optionToken, valueToken) # rest) = optionToken # valueToken # flatten rest"

text \<open>
  The value token of the last pair whose option has the text \<open>opt\<close>, if there is one
  (\<open>map_of\<close> takes the first match of the reversed list).
\<close>

definition lastValueFor :: "string \<Rightarrow> (ConfigToken \<times> ConfigToken) list \<Rightarrow> ConfigToken option" where
  "lastValueFor opt pairs = map_of (rev (map (\<lambda>(optionToken, v). (value optionToken, v)) pairs)) opt"

text \<open>The four switches of the theme command.\<close>

definition recognised :: "ConfigToken \<Rightarrow> bool" where
  "recognised optionToken \<longleftrightarrow>
     value optionToken \<in> {''--name'', ''--component'', ''--bgcolor'', ''--fgcolor''}"

text \<open>
  The two optional parts of an error string: the position in front of the message, present
  for a non-empty source label, and the lexical error behind it, present when the token
  carries one.
\<close>

definition positionPrefix :: "string \<Rightarrow> ConfigToken \<Rightarrow> string" where
  "positionPrefix src token =
     (if src = [] then []
      else src @ '':'' @ showNat (line (startPos token)) @ '':'' @
           showNat (col (startPos token)) @ '' '')"

definition lexSuffix :: "ConfigToken \<Rightarrow> string" where
  "lexSuffix token = (case err token of None \<Rightarrow> [] | Some e \<Rightarrow> '': '' @ e)"

text \<open>
  The step after the \<^verbatim>\<open>switch\<close> of \<^verbatim>\<open>Parse\<close>: recovery when an error came out of it.
\<close>

definition recover :: "(ParseResult \<times> ConfigParser) option \<Rightarrow> (ParseResult \<times> ConfigParser) option" where
  "recover r =
     (case r of
        None \<Rightarrow> None
      | Some ((command, eof, e), p) \<Rightarrow>
          if e \<noteq> None then Some ((command, eof, e), discardTokensUntilNextCommand p)
          else Some ((command, eof, e), p))"

text \<open>A Terminator token (a scanner failure is none).\<close>

definition isTerminator :: "ScanResult \<Rightarrow> bool" where
  "isTerminator r = (case r of Inl e \<Rightarrow> False | Inr t \<Rightarrow> tokenType t = CtkTerminator)"

text \<open>
  What the next call of \<^verbatim>\<open>Parse\<close> meets: the significant answers of the scanner after the
  Terminator tokens in front, which \<^verbatim>\<open>Parse\<close> reads over.
\<close>

definition upcoming :: "ConfigParser \<Rightarrow> ScanResult list" where
  "upcoming p = dropWhile isTerminator (sig (toks p))"

text \<open>
  The last step of \<^verbatim>\<open>parseCommand\<close> and \<^verbatim>\<open>parseVarArgsCommand\<close>: the constructor of the
  descriptor, applied to the tokens that the loop has gathered.
\<close>

definition finish ::
  "commandDescriptor \<Rightarrow> ConfigToken \<Rightarrow> ConfigToken list \<Rightarrow> ConfigParser \<Rightarrow>
     (ParseResult \<times> ConfigParser) option" where
  "finish d c tokens p =
     (case constructor d p c tokens of
        None \<Rightarrow> None
      | Some (command, e) \<Rightarrow> Some ((command, False, e), p))"

text \<open>The option/value pairs of a token list (the inverse of \<open>flatten\<close>).\<close>

fun pairsOf :: "ConfigToken list \<Rightarrow> (ConfigToken \<times> ConfigToken) list" where
  "pairsOf (optionToken # valueToken # rest) = (optionToken, valueToken) # pairsOf rest"
| "pairsOf tokens = []"

text \<open>
  The command value that the specification's table of commands gives for a command name and
  its argument tokens: positional fields for the fixed-arity commands, the fields named by
  the options for theme, view and args for the variable-arity commands.
\<close>

definition specCommand :: "string \<Rightarrow> ConfigToken list \<Rightarrow> ConfigCommand option" where
  "specCommand cmd args =
     (if cmd = setCommand then Some (SetCommand (args ! 0) (args ! 1))
      else if cmd = themeCommand
      then Some (ThemeCmd \<lparr>name = lastValueFor ''--name'' (pairsOf args),
                            component = lastValueFor ''--component'' (pairsOf args),
                            bgcolor = lastValueFor ''--bgcolor'' (pairsOf args),
                            fgcolor = lastValueFor ''--fgcolor'' (pairsOf args)\<rparr>)
      else if cmd = mapCommand then Some (MapCommand (args ! 0) (args ! 1) (args ! 2))
      else if cmd = unmapCommand then Some (UnmapCommand (args ! 0) (args ! 1))
      else if cmd = quitCommand then Some QuitCommand
      else if cmd = addtabCommand then Some (NewTabCommand (args ! 0))
      else if cmd = removetabCommand then Some RemoveTabCommand
      else if cmd = addviewCommand then Some (AddViewCommand (hd args) (tl args))
      else if cmd = splitCommand then Some (SplitViewCommand CoDynamic (hd args) (tl args))
      else if cmd = hsplitCommand then Some (SplitViewCommand CoHorizontal (hd args) (tl args))
      else if cmd = vsplitCommand then Some (SplitViewCommand CoVertical (hd args) (tl args))
      else None)"

text \<open>
  Where the accumulation of a variable-arity command stops: at a Terminator or EndOfInput
  token free of lexical errors, or where the scanner's answers are used up.
\<close>

fun stops :: "ScanResult list \<Rightarrow> bool" where
  "stops [] = True"
| "stops (Inl e # rs) = False"
| "stops (Inr t # rs) =
     (err t = None \<and> (tokenType t = CtkTerminator \<or> tokenType t = CtkEOF))"

text \<open>
  What the specification (sections 4.2 to 4.4 and 7) says about a failed call: the kind of
  failure, and for an error of the parser's own the offending token and the message.
\<close>

datatype Diagnosis = ScannerFailure string | Offending ConfigToken string

text \<open>
  The error string of a diagnosis: a scanner failure is handed on as it is; an error of the
  parser has the position of the offending token in front (for a non-empty source label),
  then the message, then the token's lexical error (when it carries one).
\<close>

definition render :: "string \<Rightarrow> Diagnosis \<Rightarrow> string" where
  "render src d =
     (case d of
        ScannerFailure e \<Rightarrow> e
      | Offending token msg \<Rightarrow> positionPrefix src token @ msg @ lexSuffix token)"

text \<open>
  The fixed grammar on the significant answers \<open>rs\<close> that follow the command name: for each
  expected kind in order, the next answer must not be a scanner failure, must carry no
  lexical error, must not be EndOfInput, and must have the expected kind. \<open>Inr\<close> holds the
  matched tokens, \<open>Inl\<close> the first violation; \<open>ep\<close> is the position of the end of the input.
\<close>

fun matchFixed :: "ScannerPos \<Rightarrow> ConfigTokenType list \<Rightarrow> ScanResult list \<Rightarrow> Diagnosis + ConfigToken list" where
  "matchFixed ep [] rs = Inr []"
| "matchFixed ep (ty # tys) [] = Inl (Offending (eofToken ep) ''Unexpected EOF'')"
| "matchFixed ep (ty # tys) (Inl e # rs) = Inl (ScannerFailure e)"
| "matchFixed ep (ty # tys) (Inr t # rs) =
     (if err t \<noteq> None then Inl (Offending t ''Syntax Error'')
      else if tokenType t = CtkEOF then Inl (Offending t ''Unexpected EOF'')
      else if tokenType t \<noteq> ty
      then Inl (Offending t (''Expected '' @ ConfigTokenName ty @ '' but got '' @
                             ConfigTokenName (tokenType t) @ '': \"'' @ value t @ ''\"''))
      else (case matchFixed ep tys rs of
              Inl d \<Rightarrow> Inl d
            | Inr ts \<Rightarrow> Inr (t # ts)))"

text \<open>
  The variable grammar: all tokens up to the first Terminator or EndOfInput (or the end of
  the answers); a scanner failure or a token with a lexical error before that is the
  violation.
\<close>

fun gatherVarArgs :: "ScanResult list \<Rightarrow> Diagnosis + ConfigToken list" where
  "gatherVarArgs [] = Inr []"
| "gatherVarArgs (Inl e # rs) = Inl (ScannerFailure e)"
| "gatherVarArgs (Inr t # rs) =
     (if err t \<noteq> None then Inl (Offending t ''Syntax Error'')
      else if tokenType t = CtkEOF \<or> tokenType t = CtkTerminator then Inr []
      else (case gatherVarArgs rs of
              Inl d \<Rightarrow> Inl d
            | Inr ts \<Rightarrow> Inr (t # ts)))"

text \<open>
  The errors of construction: the first option of a theme command that is not a recognised
  switch, and a variable-arity command without an argument (reported at the command name).
\<close>

definition constructorDiagnosis :: "ConfigToken \<Rightarrow> ConfigToken list \<Rightarrow> Diagnosis option" where
  "constructorDiagnosis c args =
     (if value c = themeCommand
      then (case find (\<lambda>(optionToken, v). \<not> recognised optionToken) (pairsOf args) of
              None \<Rightarrow> None
            | Some (optionToken, v) \<Rightarrow>
                Some (Offending optionToken
                        (''Invalid option for theme command: \"'' @ value optionToken @ ''\"'')))
      else if value c \<in> {addviewCommand, splitCommand, hsplitCommand, vsplitCommand} \<and> args = []
      then Some (Offending c (''Invalid '' @ value c @ '' command. Usage: '' @ value c @
                              '' [VIEW] [ARGS...]''))
      else None)"

text \<open>
  The diagnosis of a call of the driver that meets the significant answers \<open>rs\<close> (behind the
  Terminators in front): \<open>None\<close> when the call reports no error.
\<close>

definition diagnose :: "ScannerPos \<Rightarrow> ScanResult list \<Rightarrow> Diagnosis option" where
  "diagnose ep rs =
     (case rs of
        [] \<Rightarrow> None
      | Inl e # rest \<Rightarrow> Some (ScannerFailure e)
      | Inr t # rest \<Rightarrow>
          (case tokenType t of
             CtkWord \<Rightarrow>
               (case commandDescriptors (value t) of
                  None \<Rightarrow> Some (Offending t (''Invalid command \"'' @ value t @ ''\"''))
                | Some d \<Rightarrow>
                    (case (if varArgs d then gatherVarArgs rest
                           else matchFixed ep (tokenTypes d) rest) of
                       Inl diag \<Rightarrow> Some diag
                     | Inr args \<Rightarrow> constructorDiagnosis t args))
           | CtkEOF \<Rightarrow> None
           | CtkOption \<Rightarrow> Some (Offending t (''Unexpected Option \"'' @ value t @ ''\"''))
           | CtkInvalid \<Rightarrow> Some (Offending t ''Syntax Error'')
           | _ \<Rightarrow> Some (Offending t (''Unexpected token \"'' @ value t @ ''\"''))))"

section \<open>Example inputs\<close>

text \<open>
  Tokens and parsers for the examples: a token of a given kind and text at line 3, column 14,
  and a parser for the source \<^verbatim>\<open>grvrc\<close> whose scanner has the given answers and ends at
  line 7, column 1.
\<close>

definition exampleToken :: "ConfigTokenType \<Rightarrow> string \<Rightarrow> ConfigToken" where
  "exampleToken k s = \<lparr>tokenType = k, value = s, startPos = \<lparr>line = 3, col = 14\<rparr>, err = None\<rparr>"

definition exampleParser :: "ScanResult list \<Rightarrow> ConfigParser" where
  "exampleParser rs =
     NewConfigParser \<lparr>pending = rs, endPos = \<lparr>line = 7, col = 1\<rparr>\<rparr> ''grvrc''"

text \<open>
  The theme commands of the specification: the four options in another order, and
  \<^verbatim>\<open>--name\<close> given twice with \<^verbatim>\<open>--fgcolor\<close> left out.
\<close>

definition themePairsReordered :: "(ConfigToken \<times> ConfigToken) list" where
  "themePairsReordered =
     [(exampleToken CtkOption ''--bgcolor'', exampleToken CtkWord ''1''),
      (exampleToken CtkOption ''--name'', exampleToken CtkWord ''X''),
      (exampleToken CtkOption ''--fgcolor'', exampleToken CtkWord ''2''),
      (exampleToken CtkOption ''--component'', exampleToken CtkWord ''Y'')]"

definition themePairsRepeated :: "(ConfigToken \<times> ConfigToken) list" where
  "themePairsRepeated =
     [(exampleToken CtkOption ''--name'', exampleToken CtkWord ''A''),
      (exampleToken CtkOption ''--name'', exampleToken CtkWord ''B''),
      (exampleToken CtkOption ''--component'', exampleToken CtkWord ''C''),
      (exampleToken CtkOption ''--bgcolor'', exampleToken CtkWord ''1'')]"

text \<open>The pairs of \<^verbatim>\<open>theme --bogus X --name A --component C --bgcolor 1\<close>.\<close>

definition themePairsBogus :: "(ConfigToken \<times> ConfigToken) list" where
  "themePairsBogus =
     [(exampleToken CtkOption ''--bogus'', exampleToken CtkWord ''X''),
      (exampleToken CtkOption ''--name'', exampleToken CtkWord ''A''),
      (exampleToken CtkOption ''--component'', exampleToken CtkWord ''C''),
      (exampleToken CtkOption ''--bgcolor'', exampleToken CtkWord ''1'')]"

text \<open>The command \<^verbatim>\<open>set foo\<close>, cut off by the end of the input.\<close>

definition truncatedSet :: ConfigParser where
  "truncatedSet =
     exampleParser [Inr (exampleToken CtkWord ''set''), Inr (exampleToken CtkWhiteSpace '' ''),
                    Inr (exampleToken CtkWord ''foo'')]"

text \<open>
  A scanner that fails once while \<^verbatim>\<open>set\<close> waits for its first argument, and then goes on
  with \<^verbatim>\<open>a\<close>, a Terminator and \<^verbatim>\<open>q\<close>; and one that fails on the leading token.
\<close>

definition failureInArguments :: ConfigParser where
  "failureInArguments =
     exampleParser [Inr (exampleToken CtkWord ''set''), Inl ''read error'',
                    Inr (exampleToken CtkWord ''a''), Inr (exampleToken CtkTerminator '';''),
                    Inr (exampleToken CtkWord ''q'')]"

definition failureAtStart :: ConfigParser where
  "failureAtStart =
     exampleParser [Inl ''read error'',
                    Inr (exampleToken CtkWord ''a''), Inr (exampleToken CtkTerminator '';''),
                    Inr (exampleToken CtkWord ''q'')]"

text \<open>The commands \<^verbatim>\<open>set foo bar\<close> and \<^verbatim>\<open>addview log --flag\<close>, each on a line.\<close>

definition setFooBar :: ConfigParser where
  "setFooBar =
     exampleParser [Inr (exampleToken CtkWord ''set''), Inr (exampleToken CtkWhiteSpace '' ''),
                    Inr (exampleToken CtkWord ''foo''), Inr (exampleToken CtkWhiteSpace '' ''),
                    Inr (exampleToken CtkWord ''bar''), Inr (exampleToken CtkTerminator '';'')]"

definition addviewLogFlag :: ConfigParser where
  "addviewLogFlag =
     exampleParser [Inr (exampleToken CtkWord ''addview''), Inr (exampleToken CtkWhiteSpace '' ''),
                    Inr (exampleToken CtkWord ''log''), Inr (exampleToken CtkWhiteSpace '' ''),
                    Inr (exampleToken CtkOption ''--flag''), Inr (exampleToken CtkTerminator '';'')]"

text \<open>The command \<^verbatim>\<open>theme --bogus X --name A --component C --bgcolor 1\<close>.\<close>

definition themeBogus :: ConfigParser where
  "themeBogus =
     exampleParser (Inr (exampleToken CtkWord ''theme'') # map Inr (flatten themePairsBogus))"

text \<open>The command \<^verbatim>\<open>vsplit tree\<close> as the last thing in the input.\<close>

definition vsplitTreeAtEnd :: ConfigParser where
  "vsplitTreeAtEnd =
     exampleParser [Inr (exampleToken CtkWord ''vsplit''), Inr (exampleToken CtkWhiteSpace '' ''),
                    Inr (exampleToken CtkWord ''tree''), Inr (exampleToken CtkEOF [])]"

text \<open>The command \<^verbatim>\<open>addview\<close> without an argument as the last thing in the input.\<close>

definition addviewAtEnd :: ConfigParser where
  "addviewAtEnd =
     exampleParser [Inr (exampleToken CtkWord ''addview''), Inr (exampleToken CtkEOF [])]"

text \<open>The line \<^verbatim>\<open>addview\<close> without an argument, followed by the line \<^verbatim>\<open>set a b\<close>.\<close>

definition addviewThenSet :: ConfigParser where
  "addviewThenSet =
     exampleParser [Inr (exampleToken CtkWord ''addview''), Inr (exampleToken CtkTerminator '';''),
                    Inr (exampleToken CtkWord ''set''), Inr (exampleToken CtkWhiteSpace '' ''),
                    Inr (exampleToken CtkWord ''a''), Inr (exampleToken CtkWhiteSpace '' ''),
                    Inr (exampleToken CtkWord ''b''), Inr (exampleToken CtkTerminator '';'')]"

text \<open>
  The line \<^verbatim>\<open>map onlyoneword\<close>, two arguments short, followed by the line \<^verbatim>\<open>set a b\<close>.
\<close>

definition mapThenSet :: ConfigParser where
  "mapThenSet =
     exampleParser [Inr (exampleToken CtkWord ''map''), Inr (exampleToken CtkWhiteSpace '' ''),
                    Inr (exampleToken CtkWord ''onlyoneword''),
                    Inr (exampleToken CtkTerminator '';''),
                    Inr (exampleToken CtkWord ''set''), Inr (exampleToken CtkWhiteSpace '' ''),
                    Inr (exampleToken CtkWord ''a''), Inr (exampleToken CtkWhiteSpace '' ''),
                    Inr (exampleToken CtkWord ''b''), Inr (exampleToken CtkTerminator '';'')]"

text \<open>An Invalid token that carries the lexical error of an unterminated string.\<close>

definition unterminated :: ConfigToken where
  "unterminated =
     \<lparr>tokenType = CtkInvalid, value = ''\"abc'', startPos = \<lparr>line = 12, col = 5\<rparr>,
      err = Some ''Unterminated string''\<rparr>"

text \<open>A parser without a source label whose scanner gives that token.\<close>

definition unlabelled :: ConfigParser where
  "unlabelled =
     NewConfigParser \<lparr>pending = [Inr unterminated], endPos = \<lparr>line = 12, col = 9\<rparr>\<rparr> []"

section \<open>Properties of the parser\<close>

lemma scan_sig_Nil:
  assumes "sig (toks p) = []"
  shows "scan p = (Inr (eofToken (endPos (scanner p))), setToks p [])"
proof -
  from assms have dw: "dropWhile (\<lambda>r. \<not> significant r) (toks p) = []"
    by (simp add: sig_def filter_empty_conv)
  show ?thesis by (simp add: scan_closed_form dw)
qed

lemma scan_sig_Cons:
  assumes "sig (toks p) = r # rs"
  shows "\<exists>p'. scan p = (r, p') \<and> advanced p rs p'"
proof -
  from assms obtain us vs where
    "toks p = us @ r # vs" "\<forall>u\<in>set us. \<not> significant u" "significant r" "rs = filter significant vs"
    unfolding sig_def filter_eq_Cons_iff by blast
  then have dw: "dropWhile (\<lambda>r. \<not> significant r) (toks p) = r # vs"
    by (simp add: dropWhile_append)
  have "scan p = (r, setToks p vs)" by (simp add: scan_closed_form dw)
  moreover have "advanced p rs (setToks p vs)"
    using \<open>rs = filter significant vs\<close> by (simp add: advanced_def sig_def)
  ultimately show ?thesis by blast
qed

lemma advanced_trans: "advanced p rs p' \<Longrightarrow> advanced p' rs' p'' \<Longrightarrow> advanced p rs' p''"
  by (simp add: advanced_def)

lemma advanced_sig: "advanced p rs p' \<Longrightarrow> sig (toks p') = rs"
  by (simp add: advanced_def)

lemma advanced_src: "advanced p rs p' \<Longrightarrow> inputSource p' = inputSource p"
  by (simp add: advanced_def)

lemma generateParseError_advanced:
  "advanced p rs p' \<Longrightarrow> generateParseError p' t m = generateParseError p t m"
  by (simp add: advanced_def generateParseError_def)

lemma discard_sig:
  "sig (toks p) = rs \<Longrightarrow> advanced p (afterBoundary rs) (discardTokensUntilNextCommand p)"
proof (induction rs arbitrary: p)
  case Nil
  then show ?case
    by (simp add: discardTokensUntilNextCommand.simps [of p] scan_sig_Nil eofToken_def
        advanced_def sig_def)
next
  case (Cons r rs)
  from scan_sig_Cons [OF Cons.prems] obtain p' where
    sc: "scan p = (r, p')" and adv: "advanced p rs p'" by blast
  show ?case
  proof (cases r)
    case (Inl e)
    with sc adv show ?thesis
      by (simp add: discardTokensUntilNextCommand.simps [of p])
  next
    case (Inr t)
    show ?thesis
    proof (cases "tokenType t = CtkTerminator \<or> tokenType t = CtkEOF")
      case True
      with Inr sc adv show ?thesis
        by (auto simp: discardTokensUntilNextCommand.simps [of p])
    next
      case False
      from Cons.IH [OF advanced_sig [OF adv]]
      have "advanced p' (afterBoundary rs) (discardTokensUntilNextCommand p')" .
      with adv have "advanced p (afterBoundary rs) (discardTokensUntilNextCommand p')"
        by (rule advanced_trans)
      with False Inr sc show ?thesis
        by (auto simp: discardTokensUntilNextCommand.simps [of p])
    qed
  qed
qed

lemma optionSetters_None: "optionSetters s = None \<longleftrightarrow> s \<notin> {''--name'', ''--component'', ''--bgcolor'', ''--fgcolor''}"
  by (simp add: optionSetters_def)

lemma lastValueFor_Nil [simp]: "lastValueFor opt [] = None"
  by (simp add: lastValueFor_def)

lemma lastValueFor_Cons:
  "lastValueFor opt ((optionToken, v) # rest) =
     (case lastValueFor opt rest of
        Some w \<Rightarrow> Some w
      | None \<Rightarrow> if value optionToken = opt then Some v else None)"
  by (auto simp: lastValueFor_def map_add_def split: option.splits)

lemma theme_loop_all_recognised:
  assumes "\<forall>(optionToken, v) \<in> set pairs. recognised optionToken"
  shows "themeCommandConstructor_loop parser (flatten pairs) theme =
           Inl \<lparr>name = (case lastValueFor ''--name'' pairs of None \<Rightarrow> name theme | Some v \<Rightarrow> Some v),
                component = (case lastValueFor ''--component'' pairs of
                               None \<Rightarrow> component theme | Some v \<Rightarrow> Some v),
                bgcolor = (case lastValueFor ''--bgcolor'' pairs of
                             None \<Rightarrow> bgcolor theme | Some v \<Rightarrow> Some v),
                fgcolor = (case lastValueFor ''--fgcolor'' pairs of
                             None \<Rightarrow> fgcolor theme | Some v \<Rightarrow> Some v)\<rparr>"
  using assms
proof (induction pairs arbitrary: theme)
  case Nil
  then show ?case by simp
next
  case (Cons pr pairs)
  obtain optionToken v where pr: "pr = (optionToken, v)" by (cases pr)
  from Cons.prems pr have rec: "recognised optionToken"
    and rest: "\<forall>(optionToken, v) \<in> set pairs. recognised optionToken" by auto
  note ih = Cons.IH [OF rest]
  from rec consider "value optionToken = ''--name''" | "value optionToken = ''--component''"
    | "value optionToken = ''--bgcolor''" | "value optionToken = ''--fgcolor''"
    by (auto simp: recognised_def)
  then show ?case
  proof cases
    case 1
    then show ?thesis
      by (simp add: pr ih optionSetters_def lastValueFor_Cons split: option.splits)
  next
    case 2
    then show ?thesis
      by (simp add: pr ih optionSetters_def lastValueFor_Cons split: option.splits)
  next
    case 3
    then show ?thesis
      by (simp add: pr ih optionSetters_def lastValueFor_Cons split: option.splits)
  next
    case 4
    then show ?thesis
      by (simp add: pr ih optionSetters_def lastValueFor_Cons split: option.splits)
  qed
qed

lemma theme_constructor_all_recognised:
  assumes "\<forall>(optionToken, v) \<in> set pairs. recognised optionToken"
  shows "themeCommandConstructor parser commandToken (flatten pairs) =
           Some (Some (ThemeCmd \<lparr>name = lastValueFor ''--name'' pairs,
                                  component = lastValueFor ''--component'' pairs,
                                  bgcolor = lastValueFor ''--bgcolor'' pairs,
                                  fgcolor = lastValueFor ''--fgcolor'' pairs\<rparr>), None)"
  by (simp add: themeCommandConstructor_def theme_loop_all_recognised [OF assms]
      split: option.splits)

lemma lastValueFor_perm:
  assumes "mset pairs' = mset pairs" "distinct (map (\<lambda>(optionToken, v). value optionToken) pairs)"
  shows "lastValueFor opt pairs' = lastValueFor opt pairs"
proof -
  let ?kv = "map (\<lambda>(optionToken, v). (value optionToken, v))"
  let ?k = "map (\<lambda>(optionToken, v). value optionToken)"
  have fst: "fst \<circ> (\<lambda>(optionToken, v). (value optionToken, v)) =
               (\<lambda>(optionToken :: ConfigToken, v :: ConfigToken). value optionToken)"
    by (auto simp: fun_eq_iff)
  have "mset (?k pairs') = mset (?k pairs)"
    using assms(1) by simp
  then have "distinct (?k pairs') \<longleftrightarrow> distinct (?k pairs)"
    by (rule mset_eq_imp_distinct_iff)
  with assms(2) have d: "distinct (map fst (rev (?kv pairs)))" "distinct (map fst (rev (?kv pairs')))"
    by (simp_all add: fst distinct_rev rev_map [symmetric])
  have "mset (?kv pairs') = mset (?kv pairs)"
    using assms(1) by simp
  then have "set (?kv pairs') = set (?kv pairs)"
    by (rule mset_eq_setD)
  then have s: "set (rev (?kv pairs')) = set (rev (?kv pairs))"
    by simp
  have "map_of (rev (?kv pairs')) = map_of (rev (?kv pairs))"
    using d s by (simp add: map_of_inject_set)
  then show ?thesis by (simp add: lastValueFor_def)
qed

lemma lastValueFor_absent:
  "opt \<notin> (\<lambda>(optionToken, v). value optionToken) ` set pairs \<Longrightarrow> lastValueFor opt pairs = None"
  by (induction pairs) (auto simp: lastValueFor_Cons split: option.splits)

lemma lastValueFor_last:
  "opt \<notin> (\<lambda>(optionToken, v). value optionToken) ` set post \<Longrightarrow> value optionToken = opt \<Longrightarrow>
     lastValueFor opt (pre @ (optionToken, v) # post) = Some v"
  by (induction pre) (auto simp: lastValueFor_Cons lastValueFor_absent split: option.splits)

lemma generateConfigError_shape:
  "generateConfigError src token msg = positionPrefix src token @ msg @ lexSuffix token"
  by (simp add: generateConfigError_def positionPrefix_def lexSuffix_def Let_def
      split: option.splits)

lemma generateParseError_shape:
  "generateParseError parser token msg =
     positionPrefix (inputSource parser) token @ msg @ lexSuffix token"
  by (simp add: generateParseError_def generateConfigError_shape)

lemma theme_loop_first_unrecognised:
  assumes "\<forall>(optionToken, v) \<in> set pre. recognised optionToken" "\<not> recognised bad"
  shows "themeCommandConstructor_loop parser (flatten (pre @ (bad, v) # post)) theme =
           Inr (generateParseError parser bad
                  (''Invalid option for theme command: \"'' @ value bad @ ''\"''))"
  using assms
proof (induction pre arbitrary: theme)
  case Nil
  then have "optionSetters (value bad) = None"
    by (simp add: recognised_def optionSetters_None)
  then show ?case by simp
next
  case (Cons pr pre)
  obtain optionToken w where pr: "pr = (optionToken, w)" by (cases pr)
  with Cons.prems have "recognised optionToken" by simp
  then obtain setter where "optionSetters (value optionToken) = Some setter"
    using optionSetters_None [of "value optionToken"] by (auto simp: recognised_def)
  with Cons pr show ?case by simp
qed

lemma commandDescriptors_cases:
  assumes "commandDescriptors cmd = Some d"
  shows "cmd = setCommand \<and> d = \<lparr>tokenTypes = [CtkWord, CtkWord], varArgs = False,
            constructor = setCommandConstructor\<rparr> \<or>
         cmd = themeCommand \<and> d = \<lparr>tokenTypes = [CtkOption, CtkWord, CtkOption, CtkWord,
                           CtkOption, CtkWord, CtkOption, CtkWord],
            varArgs = False, constructor = themeCommandConstructor\<rparr> \<or>
         cmd = mapCommand \<and> d = \<lparr>tokenTypes = [CtkWord, CtkWord, CtkWord], varArgs = False,
            constructor = mapCommandConstructor\<rparr> \<or>
         cmd = unmapCommand \<and> d = \<lparr>tokenTypes = [CtkWord, CtkWord], varArgs = False,
            constructor = unmapCommandConstructor\<rparr> \<or>
         cmd = quitCommand \<and> d = \<lparr>tokenTypes = [], varArgs = False,
            constructor = quitCommandConstructor\<rparr> \<or>
         cmd = addtabCommand \<and> d = \<lparr>tokenTypes = [CtkWord], varArgs = False,
            constructor = newTabCommandConstructor\<rparr> \<or>
         cmd = removetabCommand \<and> d = \<lparr>tokenTypes = [], varArgs = False,
            constructor = newRemoveTabCommandConstructor\<rparr> \<or>
         cmd = addviewCommand \<and> d = \<lparr>tokenTypes = [], varArgs = True,
            constructor = addViewCommandConstructor\<rparr> \<or>
         cmd \<in> {vsplitCommand, hsplitCommand, splitCommand} \<and> d = \<lparr>tokenTypes = [],
            varArgs = True, constructor = splitViewCommandConstructor\<rparr>"
proof -
  have "map_of [(setCommand,
           \<lparr>tokenTypes = [CtkWord, CtkWord], varArgs = False,
            constructor = setCommandConstructor\<rparr>),
        (themeCommand,
           \<lparr>tokenTypes = [CtkOption, CtkWord, CtkOption, CtkWord,
                           CtkOption, CtkWord, CtkOption, CtkWord],
            varArgs = False, constructor = themeCommandConstructor\<rparr>),
        (mapCommand,
           \<lparr>tokenTypes = [CtkWord, CtkWord, CtkWord], varArgs = False,
            constructor = mapCommandConstructor\<rparr>),
        (unmapCommand,
           \<lparr>tokenTypes = [CtkWord, CtkWord], varArgs = False,
            constructor = unmapCommandConstructor\<rparr>),
        (quitCommand,
           \<lparr>tokenTypes = [], varArgs = False, constructor = quitCommandConstructor\<rparr>),
        (addtabCommand,
           \<lparr>tokenTypes = [CtkWord], varArgs = False,
            constructor = newTabCommandConstructor\<rparr>),
        (removetabCommand,
           \<lparr>tokenTypes = [], varArgs = False,
            constructor = newRemoveTabCommandConstructor\<rparr>),
        (addviewCommand,
           \<lparr>tokenTypes = [], varArgs = True, constructor = addViewCommandConstructor\<rparr>),
        (vsplitCommand,
           \<lparr>tokenTypes = [], varArgs = True, constructor = splitViewCommandConstructor\<rparr>),
        (hsplitCommand,
           \<lparr>tokenTypes = [], varArgs = True, constructor = splitViewCommandConstructor\<rparr>),
        (splitCommand,
           \<lparr>tokenTypes = [], varArgs = True, constructor = splitViewCommandConstructor\<rparr>)] cmd = Some d"
    using assms unfolding commandDescriptors_def .
  from map_of_SomeD [OF this] show ?thesis
    unfolding list.set insert_iff empty_iff prod.inject by (elim disjE FalseE) simp_all
qed

lemma commandDescriptors_varArgs:
  "commandDescriptors addviewCommand =
     Some \<lparr>tokenTypes = [], varArgs = True, constructor = addViewCommandConstructor\<rparr>"
  "commandDescriptors vsplitCommand =
     Some \<lparr>tokenTypes = [], varArgs = True, constructor = splitViewCommandConstructor\<rparr>"
  "commandDescriptors hsplitCommand =
     Some \<lparr>tokenTypes = [], varArgs = True, constructor = splitViewCommandConstructor\<rparr>"
  "commandDescriptors splitCommand =
     Some \<lparr>tokenTypes = [], varArgs = True, constructor = splitViewCommandConstructor\<rparr>"
  by (simp_all add: commandDescriptors_def commandNames)

lemma advanced_refl: "advanced p (sig (toks p)) p"
  by (simp add: advanced_def)

lemma Parse_step:
  assumes "scan p = (r, p1)"
  shows "Parse p =
           (case r of
              Inl e \<Rightarrow> Some ((None, False, Some e), p1)
            | Inr t \<Rightarrow> if tokenType t = CtkTerminator then Parse p1
                       else recover (Parse_switch p1 t))"
  using assms
  by (simp add: Parse.simps [of p] recover_def split: sum.splits option.splits prod.splits)

lemma Parse_upcoming:
  "sig (toks p) = rs \<Longrightarrow>
   \<exists>p1. advanced p (tl (dropWhile isTerminator rs)) p1 \<and>
        Parse p =
          (case dropWhile isTerminator rs of
             [] \<Rightarrow> Some ((None, True, None), p1)
           | Inl e # rest \<Rightarrow> Some ((None, False, Some e), p1)
           | Inr t # rest \<Rightarrow> recover (Parse_switch p1 t))"
proof (induction rs arbitrary: p)
  case Nil
  have "advanced p [] (setToks p [])" by (simp add: advanced_def sig_def)
  moreover have "Parse p = Some ((None, True, None), setToks p [])"
    by (simp add: Parse_step [OF scan_sig_Nil [OF Nil]] eofToken_def Parse_switch_def recover_def)
  ultimately show ?case by auto
next
  case (Cons r rs)
  from scan_sig_Cons [OF Cons.prems] obtain p1 where
    sc: "scan p = (r, p1)" and adv: "advanced p rs p1" by blast
  show ?case
  proof (cases r)
    case (Inl e)
    with sc adv show ?thesis
      by (auto simp: Parse_step [OF sc] isTerminator_def)
  next
    case (Inr t)
    show ?thesis
    proof (cases "tokenType t = CtkTerminator")
      case True
      from Cons.IH [OF advanced_sig [OF adv]] obtain p2 where
        a2: "advanced p1 (tl (dropWhile isTerminator rs)) p2"
        and P: "Parse p1 =
          (case dropWhile isTerminator rs of
             [] \<Rightarrow> Some ((None, True, None), p2)
           | Inl e # rest \<Rightarrow> Some ((None, False, Some e), p2)
           | Inr t # rest \<Rightarrow> recover (Parse_switch p2 t))" by blast
      from adv a2 have a: "advanced p (tl (dropWhile isTerminator rs)) p2"
        by (rule advanced_trans)
      have PP: "Parse p = Parse p1"
        using True Inr by (simp add: Parse_step [OF sc])
      have dw: "dropWhile isTerminator (r # rs) = dropWhile isTerminator rs"
        using True Inr by (simp add: isTerminator_def)
      show ?thesis
        unfolding dw
      proof (intro exI conjI)
        show "advanced p (tl (dropWhile isTerminator rs)) p2" by fact
        show "Parse p =
          (case dropWhile isTerminator rs of
             [] \<Rightarrow> Some ((None, True, None), p2)
           | Inl e # rest \<Rightarrow> Some ((None, False, Some e), p2)
           | Inr t # rest \<Rightarrow> recover (Parse_switch p2 t))"
          unfolding PP by (rule P)
      qed
    next
      case False
      with Inr sc adv show ?thesis
        by (auto simp: Parse_step [OF sc] isTerminator_def)
    qed
  qed
qed

lemma Parse_upcoming_Nil:
  assumes "upcoming p = []"
  shows "\<exists>p1. advanced p [] p1 \<and> Parse p = Some ((None, True, None), p1)"
proof -
  note dw = assms [unfolded upcoming_def]
  from Parse_upcoming [OF refl, of p] show ?thesis by (simp add: dw)
qed

lemma Parse_upcoming_Inl:
  assumes "upcoming p = Inl e # rest"
  shows "\<exists>p1. advanced p rest p1 \<and> Parse p = Some ((None, False, Some e), p1)"
proof -
  note dw = assms [unfolded upcoming_def]
  from Parse_upcoming [OF refl, of p] show ?thesis by (simp add: dw)
qed

lemma Parse_upcoming_Inr:
  assumes "upcoming p = Inr t # rest"
  shows "\<exists>p1. advanced p rest p1 \<and> Parse p = recover (Parse_switch p1 t)"
proof -
  note dw = assms [unfolded upcoming_def]
  from Parse_upcoming [OF refl, of p] show ?thesis by (simp add: dw)
qed

lemma parseCommand_loop_matched:
  assumes "sig (toks p) = map Inr args @ rest"
    and "map tokenType args = tys1"
    and "\<forall>a \<in> set args. err a = None \<and> tokenType a \<noteq> CtkEOF"
  shows "\<exists>p'. advanced p rest p' \<and>
           (\<forall>tys2. parseCommand_loop p (tys1 @ tys2) acc = parseCommand_loop p' tys2 (acc @ args))"
  using assms
proof (induction args arbitrary: p tys1 acc)
  case Nil
  then show ?case using advanced_refl [of p] by auto
next
  case (Cons a args)
  from Cons.prems(1) have "sig (toks p) = Inr a # (map Inr args @ rest)" by simp
  from scan_sig_Cons [OF this] obtain p1 where
    sc: "scan p = (Inr a, p1)" and adv: "advanced p (map Inr args @ rest) p1" by blast
  from Cons.prems(2) obtain tys1' where tys: "tys1 = tokenType a # tys1'"
    and m: "map tokenType args = tys1'" by auto
  from Cons.prems(3) have ok: "err a = None" "tokenType a \<noteq> CtkEOF"
    and oks: "\<forall>a \<in> set args. err a = None \<and> tokenType a \<noteq> CtkEOF" by auto
  from Cons.IH [OF advanced_sig [OF adv] m oks, of "acc @ [a]"] obtain p' where
    a': "advanced p1 rest p'"
    and eq: "\<forall>tys2. parseCommand_loop p1 (tys1' @ tys2) (acc @ [a]) =
                    parseCommand_loop p' tys2 ((acc @ [a]) @ args)" by blast
  have "parseCommand_loop p (tys1 @ tys2) acc = parseCommand_loop p' tys2 (acc @ a # args)" for tys2
    using eq ok by (simp add: tys sc)
  with advanced_trans [OF adv a'] show ?case by blast
qed

lemma parseVarArgsCommand_loop_matched:
  assumes "sig (toks p) = map Inr args @ rest"
    and "\<forall>a \<in> set args. err a = None \<and> tokenType a \<noteq> CtkEOF \<and> tokenType a \<noteq> CtkTerminator"
  shows "\<exists>p'. advanced p rest p' \<and>
           parseVarArgsCommand_loop p acc = parseVarArgsCommand_loop p' (acc @ args)"
  using assms
proof (induction args arbitrary: p acc)
  case Nil
  then show ?case using advanced_refl [of p] by auto
next
  case (Cons a args)
  from Cons.prems(1) have "sig (toks p) = Inr a # (map Inr args @ rest)" by simp
  from scan_sig_Cons [OF this] obtain p1 where
    sc: "scan p = (Inr a, p1)" and adv: "advanced p (map Inr args @ rest) p1" by blast
  from Cons.prems(2) have ok: "err a = None" "tokenType a \<noteq> CtkEOF" "tokenType a \<noteq> CtkTerminator"
    and oks: "\<forall>a \<in> set args. err a = None \<and> tokenType a \<noteq> CtkEOF \<and>
                tokenType a \<noteq> CtkTerminator" by auto
  from Cons.IH [OF advanced_sig [OF adv] oks, of "acc @ [a]"] obtain p' where
    a': "advanced p1 rest p'"
    and eq: "parseVarArgsCommand_loop p1 (acc @ [a]) =
             parseVarArgsCommand_loop p' ((acc @ [a]) @ args)" by blast
  have "parseVarArgsCommand_loop p acc = parseVarArgsCommand_loop p' (acc @ a # args)"
    using eq ok by (simp add: parseVarArgsCommand_loop.simps [of p] sc)
  with advanced_trans [OF adv a'] show ?case by blast
qed

text \<open>One more request to the scanner, whatever follows.\<close>

lemma scan_next:
  "\<exists>p'. advanced p (tl (sig (toks p))) p' \<and>
        scan p = (case sig (toks p) of
                    [] \<Rightarrow> Inr (eofToken (endPos (scanner p)))
                  | r # rs \<Rightarrow> r, p')"
proof (cases "sig (toks p)")
  case Nil
  have "advanced p [] (setToks p [])" by (simp add: advanced_def sig_def)
  with Nil scan_sig_Nil [OF Nil] show ?thesis by auto
next
  case (Cons r rs)
  with scan_sig_Cons [OF Cons] show ?thesis by auto
qed

lemma fixed_tokenTypes_no_EOF:
  assumes "commandDescriptors cmd = Some d"
  shows "CtkEOF \<notin> set (tokenTypes d)"
  using commandDescriptors_cases [OF assms] by (elim disjE conjE) simp_all

lemma parseCommand_fixed_prefix:
  assumes d: "commandDescriptors (value c) = Some d" "\<not> varArgs d"
    and s: "sig (toks p1) = map Inr args @ rest"
    and m: "map tokenType args = take (length args) (tokenTypes d)"
    and ok: "\<forall>a \<in> set args. err a = None"
  shows "\<exists>p2. advanced p1 rest p2 \<and>
           parseCommand p1 c =
             (case parseCommand_loop p2 (drop (length args) (tokenTypes d)) args of
                (Inr (eof, e), p') \<Rightarrow> Some ((None, eof, Some e), p')
              | (Inl tokens, p') \<Rightarrow> finish d c tokens p')"
proof -
  have "tokenType a \<noteq> CtkEOF" if "a \<in> set args" for a
  proof -
    from that have "tokenType a \<in> set (map tokenType args)" by simp
    with m have "tokenType a \<in> set (tokenTypes d)" by (metis in_set_takeD)
    with fixed_tokenTypes_no_EOF [OF d(1)] show ?thesis by auto
  qed
  with ok have ok': "\<forall>a \<in> set args. err a = None \<and> tokenType a \<noteq> CtkEOF" by simp
  from parseCommand_loop_matched [OF s m ok', of "[]"] obtain p2 where
    adv: "advanced p1 rest p2"
    and eq: "\<forall>tys2. parseCommand_loop p1 (take (length args) (tokenTypes d) @ tys2) [] =
                    parseCommand_loop p2 tys2 ([] @ args)" by blast
  from eq [rule_format, of "drop (length args) (tokenTypes d)"]
  have "parseCommand_loop p1 (tokenTypes d) [] =
        parseCommand_loop p2 (drop (length args) (tokenTypes d)) args" by simp
  then have "parseCommand p1 c =
             (case parseCommand_loop p2 (drop (length args) (tokenTypes d)) args of
                (Inr (eof, e), p') \<Rightarrow> Some ((None, eof, Some e), p')
              | (Inl tokens, p') \<Rightarrow> finish d c tokens p')"
    using d by (simp add: parseCommand_def finish_def split: prod.splits sum.splits)
  with adv show ?thesis by blast
qed

lemma parseCommand_varArgs_prefix:
  assumes d: "commandDescriptors (value c) = Some d" "varArgs d"
    and s: "sig (toks p1) = map Inr args @ rest"
    and ok: "\<forall>a \<in> set args. err a = None \<and> tokenType a \<noteq> CtkEOF \<and>
               tokenType a \<noteq> CtkTerminator"
  shows "\<exists>p2. advanced p1 rest p2 \<and>
           parseCommand p1 c =
             (case parseVarArgsCommand_loop p2 args of
                (Inr e, p') \<Rightarrow> Some ((None, False, Some e), p')
              | (Inl tokens, p') \<Rightarrow> finish d c tokens p')"
proof -
  from parseVarArgsCommand_loop_matched [OF s ok, of "[]"] obtain p2 where
    adv: "advanced p1 rest p2"
    and eq: "parseVarArgsCommand_loop p1 [] = parseVarArgsCommand_loop p2 ([] @ args)" by blast
  have "parseCommand p1 c =
             (case parseVarArgsCommand_loop p2 args of
                (Inr e, p') \<Rightarrow> Some ((None, False, Some e), p')
              | (Inl tokens, p') \<Rightarrow> finish d c tokens p')"
    using d eq
    by (simp add: parseCommand_def parseVarArgsCommand_def finish_def split: prod.splits sum.splits)
  with adv show ?thesis by blast
qed

lemma Parse_command:
  assumes "upcoming p = Inr c # rest" "tokenType c = CtkWord"
  shows "\<exists>p1. advanced p rest p1 \<and> Parse p = recover (parseCommand p1 c)"
  using Parse_upcoming_Inr [OF assms(1)] assms(2) by (simp add: Parse_switch_def)

lemma recover_error:
  "recover (Some ((command, eof, Some e), p)) =
     Some ((command, eof, Some e), discardTokensUntilNextCommand p)"
  by (simp add: recover_def)

lemma recover_ok:
  "recover (Some ((command, eof, None), p)) = Some ((command, eof, None), p)"
  by (simp add: recover_def)

lemma flatten_pairsOf:
  "even (length tokens) \<Longrightarrow> flatten (pairsOf tokens) = tokens"
  by (induction tokens rule: pairsOf.induct) simp_all

lemma parseCommand_fixed_full:
  assumes d: "commandDescriptors (value c) = Some d" "\<not> varArgs d"
    and s: "sig (toks p1) = map Inr args @ rest"
    and m: "map tokenType args = tokenTypes d"
    and ok: "\<forall>a \<in> set args. err a = None"
  shows "\<exists>p2. advanced p1 rest p2 \<and> parseCommand p1 c = finish d c args p2"
proof -
  from m have len: "length args = length (tokenTypes d)" by (metis length_map)
  with m have m': "map tokenType args = take (length args) (tokenTypes d)" by simp
  from parseCommand_fixed_prefix [OF d s m' ok] len show ?thesis by simp
qed

lemma parseCommand_varArgs_full:
  assumes d: "commandDescriptors (value c) = Some d" "varArgs d"
    and s: "sig (toks p1) = map Inr args @ rest"
    and ok: "\<forall>a \<in> set args. err a = None \<and> tokenType a \<noteq> CtkEOF \<and>
               tokenType a \<noteq> CtkTerminator"
    and st: "stops rest"
  shows "\<exists>p3. advanced p1 (tl rest) p3 \<and> parseCommand p1 c = finish d c args p3"
proof -
  from parseCommand_varArgs_prefix [OF d s ok] obtain p2 where
    a2: "advanced p1 rest p2"
    and C: "parseCommand p1 c =
             (case parseVarArgsCommand_loop p2 args of
                (Inr e, p') \<Rightarrow> Some ((None, False, Some e), p')
              | (Inl tokens, p') \<Rightarrow> finish d c tokens p')" by blast
  from scan_next [of p2] advanced_sig [OF a2] obtain p3 where
    a3: "advanced p2 (tl rest) p3"
    and sc: "scan p2 = (case rest of [] \<Rightarrow> Inr (eofToken (endPos (scanner p2))) | r # rs \<Rightarrow> r, p3)"
    by auto
  have L: "parseVarArgsCommand_loop p2 args = (Inl args, p3)"
  proof (cases rest)
    case Nil
    with sc show ?thesis
      by (simp add: parseVarArgsCommand_loop.simps [of p2] eofToken_def)
  next
    case (Cons r rs)
    with st obtain t where "r = Inr t" "err t = None"
      "tokenType t = CtkTerminator \<or> tokenType t = CtkEOF"
      by (cases r) auto
    with Cons sc show ?thesis
      by (auto simp: parseVarArgsCommand_loop.simps [of p2])
  qed
  have "parseCommand p1 c = finish d c args p3" unfolding C L by simp
  with advanced_trans [OF a2 a3] show ?thesis by blast
qed

lemma constructor_matches_spec:
  assumes d: "commandDescriptors cmd = Some d"
    and v: "value c = cmd"
    and shape: "if varArgs d then args \<noteq> [] else map tokenType args = tokenTypes d"
    and th: "cmd = themeCommand \<longrightarrow>
               (\<forall>(optionToken, v) \<in> set (pairsOf args). recognised optionToken)"
  shows "\<exists>command. specCommand cmd args = Some command \<and>
           constructor d p c args = Some (Some command, None)"
proof -
  from commandDescriptors_cases [OF d] show ?thesis
  proof (elim disjE conjE)
    assume c: "cmd = setCommand"
      and "d = \<lparr>tokenTypes = [CtkWord, CtkWord], varArgs = False,
                constructor = setCommandConstructor\<rparr>"
    with shape show ?thesis
      by (auto simp: specCommand_def setCommandConstructor_def)
  next
    assume c: "cmd = themeCommand"
      and dd: "d = \<lparr>tokenTypes = [CtkOption, CtkWord, CtkOption, CtkWord,
                           CtkOption, CtkWord, CtkOption, CtkWord],
            varArgs = False, constructor = themeCommandConstructor\<rparr>"
    with shape have "length args = 8" by (auto dest: arg_cong [where f = length])
    then have "flatten (pairsOf args) = args" by (simp add: flatten_pairsOf)
    moreover from th c
    have rec: "\<forall>(optionToken, v) \<in> set (pairsOf args). recognised optionToken" by simp
    note theme_constructor_all_recognised [OF rec, of p c]
    ultimately show ?thesis by (simp add: specCommand_def c dd commandNames)
  next
    assume c: "cmd = mapCommand"
      and "d = \<lparr>tokenTypes = [CtkWord, CtkWord, CtkWord], varArgs = False,
            constructor = mapCommandConstructor\<rparr>"
    with shape show ?thesis
      by (auto simp: specCommand_def mapCommandConstructor_def commandNames)
  next
    assume c: "cmd = unmapCommand"
      and "d = \<lparr>tokenTypes = [CtkWord, CtkWord], varArgs = False,
            constructor = unmapCommandConstructor\<rparr>"
    with shape show ?thesis
      by (auto simp: specCommand_def unmapCommandConstructor_def commandNames)
  next
    assume c: "cmd = quitCommand"
      and "d = \<lparr>tokenTypes = [], varArgs = False, constructor = quitCommandConstructor\<rparr>"
    with shape show ?thesis
      by (auto simp: specCommand_def quitCommandConstructor_def commandNames)
  next
    assume c: "cmd = addtabCommand"
      and "d = \<lparr>tokenTypes = [CtkWord], varArgs = False,
                constructor = newTabCommandConstructor\<rparr>"
    with shape show ?thesis
      by (auto simp: specCommand_def newTabCommandConstructor_def commandNames)
  next
    assume c: "cmd = removetabCommand"
      and "d = \<lparr>tokenTypes = [], varArgs = False,
                constructor = newRemoveTabCommandConstructor\<rparr>"
    with shape show ?thesis
      by (auto simp: specCommand_def newRemoveTabCommandConstructor_def commandNames)
  next
    assume c: "cmd = addviewCommand"
      and "d = \<lparr>tokenTypes = [], varArgs = True, constructor = addViewCommandConstructor\<rparr>"
    with shape show ?thesis
      by (cases args) (auto simp: specCommand_def addViewCommandConstructor_def commandNames)
  next
    assume c: "cmd \<in> {vsplitCommand, hsplitCommand, splitCommand}"
      and "d = \<lparr>tokenTypes = [], varArgs = True, constructor = splitViewCommandConstructor\<rparr>"
    with shape v show ?thesis
      by (cases args) (auto simp: specCommand_def splitViewCommandConstructor_def commandNames)
  qed
qed

lemma Parse_matching_grammar:
  assumes "commandDescriptors (value c) = Some d" and "tokenType c = CtkWord"
    and "upcoming p = Inr c # map Inr args @ rest"
    and "\<forall>a \<in> set args. err a = None"
    and "if varArgs d
         then args \<noteq> [] \<and>
              (\<forall>a \<in> set args. tokenType a \<noteq> CtkEOF \<and> tokenType a \<noteq> CtkTerminator) \<and>
              stops rest
         else map tokenType args = tokenTypes d"
    and "value c = themeCommand \<longrightarrow>
           (\<forall>(optionToken, v) \<in> set (pairsOf args). recognised optionToken)"
  shows "\<exists>command p'.
           specCommand (value c) args = Some command \<and>
           Parse p = Some ((Some command, False, None), p') \<and>
           sig (toks p') = (if varArgs d then tl rest else rest)"
proof -
  from Parse_command [OF assms(3,2)] obtain p1 where
    a1: "advanced p (map Inr args @ rest) p1" and P: "Parse p = recover (parseCommand p1 c)"
    by blast
  have "\<exists>p2. advanced p1 (if varArgs d then tl rest else rest) p2 \<and>
             parseCommand p1 c = finish d c args p2"
  proof (cases "varArgs d")
    case True
    with assms(4,5) have ok: "\<forall>a \<in> set args. err a = None \<and> tokenType a \<noteq> CtkEOF \<and>
                                 tokenType a \<noteq> CtkTerminator" and st: "stops rest" by simp_all
    from parseCommand_varArgs_full [OF assms(1) True advanced_sig [OF a1] ok st] True
    show ?thesis by simp
  next
    case False
    with assms(5) have m: "map tokenType args = tokenTypes d" by simp
    from parseCommand_fixed_full [OF assms(1) False advanced_sig [OF a1] m assms(4)] False
    show ?thesis by simp
  qed
  then obtain p2 where a2: "advanced p1 (if varArgs d then tl rest else rest) p2"
    and C: "parseCommand p1 c = finish d c args p2" by blast
  have shape: "if varArgs d then args \<noteq> [] else map tokenType args = tokenTypes d"
    using assms(5) by (simp split: if_splits)
  from constructor_matches_spec [OF assms(1) refl shape assms(6), of p2] obtain command where
    sp: "specCommand (value c) args = Some command"
    and K: "constructor d p2 c args = Some (Some command, None)" by blast
  have "Parse p = Some ((Some command, False, None), p2)"
    unfolding P C by (simp add: finish_def K recover_ok)
  with sp a2 show ?thesis by (auto simp: advanced_def)
qed

lemma varArgs_not_theme:
  assumes "commandDescriptors cmd = Some d" "varArgs d"
  shows "cmd \<noteq> themeCommand"
  using commandDescriptors_cases [OF assms(1)] assms(2)
  by (elim disjE conjE) (auto simp: commandNames)

lemma render_simps [simp]:
  "render src (ScannerFailure e) = e"
  "render (inputSource p) (Offending t msg) = generateParseError p t msg"
  by (simp_all add: render_def generateParseError_shape)

lemma advanced_endPos: "advanced p rs p' \<Longrightarrow> endPos (scanner p') = endPos (scanner p)"
  by (simp add: advanced_def)

lemma matchFixed_length:
  "matchFixed ep tys rs = Inr args \<Longrightarrow> length args = length tys"
proof (induction ep tys rs arbitrary: args rule: matchFixed.induct)
  case (4 ep ty tys t rs)
  then show ?case by (auto split: if_splits sum.splits)
qed simp_all

lemma parseCommand_loop_diagnosis:
  assumes "sig (toks p) = rs"
  shows "\<exists>p'. inputSource p' = inputSource p \<and>
           (case matchFixed (endPos (scanner p)) tys rs of
              Inl d \<Rightarrow> \<exists>eof. parseCommand_loop p tys acc = (Inr (eof, render (inputSource p) d), p')
            | Inr args \<Rightarrow> parseCommand_loop p tys acc = (Inl (acc @ args), p'))"
  using assms
proof (induction tys arbitrary: p rs acc)
  case Nil
  then show ?case by simp
next
  case (Cons ty tys)
  from scan_next [of p] Cons.prems obtain p1 where
    a1: "advanced p (tl rs) p1"
    and sc: "scan p = (case rs of [] \<Rightarrow> Inr (eofToken (endPos (scanner p))) | r # rs' \<Rightarrow> r, p1)"
    by auto
  note src = advanced_src [OF a1]
  note ep = advanced_endPos [OF a1]
  have g: "generateParseError p1 t m = generateParseError p t m" for t m
    by (simp add: generateParseError_def src)
  show ?case
  proof (cases rs)
    case Nil
    with sc have "scan p = (Inr (eofToken (endPos (scanner p))), p1)" by simp
    then have "parseCommand_loop p (ty # tys) acc =
      (Inr (True, generateParseError p (eofToken (endPos (scanner p))) ''Unexpected EOF''), p1)"
      by (simp add: eofToken_def g)
    with Nil src show ?thesis by auto
  next
    case (Cons r rs')
    with sc have sc': "scan p = (r, p1)" by simp
    show ?thesis
    proof (cases r)
      case (Inl e)
      with sc' have "parseCommand_loop p (ty # tys) acc = (Inr (False, e), p1)" by simp
      with Inl Cons src show ?thesis by auto
    next
      case (Inr t)
      show ?thesis
      proof (cases "err t = None \<and> tokenType t \<noteq> CtkEOF \<and> tokenType t = ty")
        case False
        with Inr sc' Cons src show ?thesis by (auto simp: g)
      next
        case True
        from a1 Cons have s1: "sig (toks p1) = rs'" by (simp add: advanced_def)
        from Cons.IH [OF s1, of "acc @ [t]"] obtain p' where
          src': "inputSource p' = inputSource p1"
          and ih: "case matchFixed (endPos (scanner p1)) tys rs' of
              Inl d \<Rightarrow> \<exists>eof. parseCommand_loop p1 tys (acc @ [t]) =
                               (Inr (eof, render (inputSource p1) d), p')
            | Inr args \<Rightarrow> parseCommand_loop p1 tys (acc @ [t]) = (Inl ((acc @ [t]) @ args), p')"
          by blast
        have step: "parseCommand_loop p (ty # tys) acc = parseCommand_loop p1 tys (acc @ [t])"
          using True Inr sc' by auto
        have m: "matchFixed (endPos (scanner p)) (ty # tys) rs =
                 (case matchFixed (endPos (scanner p)) tys rs' of
                    Inl d \<Rightarrow> Inl d | Inr ts \<Rightarrow> Inr (t # ts))"
          using True Inr Cons by auto
        show ?thesis
        proof (cases "matchFixed (endPos (scanner p)) tys rs'")
          case (Inl d)
          with ih ep src src' step m show ?thesis by auto
        next
          case (Inr ts)
          with ih ep src src' step m show ?thesis by auto
        qed
      qed
    qed
  qed
qed

lemma parseVarArgsCommand_loop_diagnosis:
  assumes "sig (toks p) = rs"
  shows "\<exists>p'. inputSource p' = inputSource p \<and>
           (case gatherVarArgs rs of
              Inl d \<Rightarrow> parseVarArgsCommand_loop p acc = (Inr (render (inputSource p) d), p')
            | Inr args \<Rightarrow> parseVarArgsCommand_loop p acc = (Inl (acc @ args), p'))"
  using assms
proof (induction rs arbitrary: p acc)
  case Nil
  from scan_sig_Nil [OF Nil]
  have "parseVarArgsCommand_loop p acc = (Inl acc, setToks p [])"
    by (simp add: parseVarArgsCommand_loop.simps [of p] eofToken_def)
  then show ?case by auto
next
  case (Cons r rs)
  from scan_sig_Cons [OF Cons.prems] obtain p1 where
    sc: "scan p = (r, p1)" and a1: "advanced p rs p1" by blast
  note src = advanced_src [OF a1]
  have g: "generateParseError p1 t m = generateParseError p t m" for t m
    by (simp add: generateParseError_def src)
  show ?case
  proof (cases r)
    case (Inl e)
    with sc have "parseVarArgsCommand_loop p acc = (Inr e, p1)"
      by (simp add: parseVarArgsCommand_loop.simps [of p])
    with Inl src show ?thesis by auto
  next
    case (Inr t)
    show ?thesis
    proof (cases "err t = None \<and> tokenType t \<noteq> CtkEOF \<and> tokenType t \<noteq> CtkTerminator")
      case False
      with Inr sc src show ?thesis
        by (auto simp: parseVarArgsCommand_loop.simps [of p] g)
    next
      case True
      from Cons.IH [OF advanced_sig [OF a1], of "acc @ [t]"] obtain p' where
        src': "inputSource p' = inputSource p1"
        and ih: "case gatherVarArgs rs of
              Inl d \<Rightarrow> parseVarArgsCommand_loop p1 (acc @ [t]) = (Inr (render (inputSource p1) d), p')
            | Inr args \<Rightarrow> parseVarArgsCommand_loop p1 (acc @ [t]) = (Inl ((acc @ [t]) @ args), p')"
        by blast
      have step: "parseVarArgsCommand_loop p acc = parseVarArgsCommand_loop p1 (acc @ [t])"
        using True Inr sc by (simp add: parseVarArgsCommand_loop.simps [of p])
      have m: "gatherVarArgs (r # rs) =
                 (case gatherVarArgs rs of Inl d \<Rightarrow> Inl d | Inr ts \<Rightarrow> Inr (t # ts))"
        using True Inr by simp
      show ?thesis
      proof (cases "gatherVarArgs rs")
        case (Inl d)
        with ih src src' step m show ?thesis by auto
      next
        case (Inr ts)
        with ih src src' step m show ?thesis by auto
      qed
    qed
  qed
qed

lemma theme_loop_find:
  "case find (\<lambda>(optionToken, v). \<not> recognised optionToken) (pairsOf tokens) of
     None \<Rightarrow> \<exists>theme'. themeCommandConstructor_loop p tokens theme = Inl theme'
   | Some (optionToken, v) \<Rightarrow>
       themeCommandConstructor_loop p tokens theme =
         Inr (generateParseError p optionToken
                (''Invalid option for theme command: \"'' @ value optionToken @ ''\"''))"
proof (induction p tokens theme rule: themeCommandConstructor_loop.induct)
  case (1 parser optionToken valueToken rest theme)
  show ?case
  proof (cases "optionSetters (value optionToken)")
    case None
    then have "\<not> recognised optionToken" by (simp add: optionSetters_None recognised_def)
    with None show ?thesis by simp
  next
    case (Some setter)
    then have "recognised optionToken"
      using optionSetters_None [of "value optionToken"] by (auto simp: recognised_def)
    with Some "1.IH" [OF Some] show ?thesis by (auto split: option.splits)
  qed
qed simp_all

lemma constructor_diagnosis:
  assumes "commandDescriptors (value c) = Some d"
    and "varArgs d \<or> length args = length (tokenTypes d)"
  shows "\<exists>command. constructor d p c args =
           Some (command, map_option (render (inputSource p)) (constructorDiagnosis c args))"
  using commandDescriptors_cases [OF assms(1)]
proof (elim disjE conjE)
  assume c: "value c = themeCommand"
    and d: "d = \<lparr>tokenTypes = [CtkOption, CtkWord, CtkOption, CtkWord,
                           CtkOption, CtkWord, CtkOption, CtkWord],
            varArgs = False, constructor = themeCommandConstructor\<rparr>"
  let ?theme = "\<lparr>name = None, component = None, bgcolor = None, fgcolor = None\<rparr>"
  show ?thesis
  proof (cases "find (\<lambda>(optionToken, v). \<not> recognised optionToken) (pairsOf args)")
    case None
    with theme_loop_find [where tokens = args and p = p and theme = ?theme] obtain theme' where
      "themeCommandConstructor_loop p args ?theme = Inl theme'" by auto
    with None c d show ?thesis
      by (simp add: constructorDiagnosis_def themeCommandConstructor_def)
  next
    case (Some pr)
    obtain optionToken v where pr: "pr = (optionToken, v)" by (cases pr)
    with Some theme_loop_find [where tokens = args and p = p and theme = ?theme]
    have "themeCommandConstructor_loop p args ?theme =
         Inr (generateParseError p optionToken
                (''Invalid option for theme command: \"'' @ value optionToken @ ''\"''))" by simp
    with Some pr c d show ?thesis
      by (simp add: constructorDiagnosis_def themeCommandConstructor_def)
  qed
next
  assume c: "value c = addviewCommand"
    and d: "d = \<lparr>tokenTypes = [], varArgs = True, constructor = addViewCommandConstructor\<rparr>"
  have n: "addviewCommand \<noteq> themeCommand" by (simp add: commandNames)
  show ?thesis
    by (cases args) (simp_all add: constructorDiagnosis_def c d n addViewCommandConstructor_def)
next
  assume c: "value c \<in> {vsplitCommand, hsplitCommand, splitCommand}"
    and d: "d = \<lparr>tokenTypes = [], varArgs = True, constructor = splitViewCommandConstructor\<rparr>"
  from c have n: "value c \<noteq> themeCommand" by (auto simp: commandNames)
  from c show ?thesis
    by (cases args)
       (auto simp: constructorDiagnosis_def d n splitViewCommandConstructor_def Let_def)
next
  assume c: "value c = setCommand"
    and d: "d = \<lparr>tokenTypes = [CtkWord, CtkWord], varArgs = False,
                constructor = setCommandConstructor\<rparr>"
  with assms(2) show ?thesis
    by (simp add: constructorDiagnosis_def setCommandConstructor_def commandNames)
next
  assume c: "value c = mapCommand"
    and d: "d = \<lparr>tokenTypes = [CtkWord, CtkWord, CtkWord], varArgs = False,
            constructor = mapCommandConstructor\<rparr>"
  with assms(2) show ?thesis
    by (simp add: constructorDiagnosis_def mapCommandConstructor_def commandNames)
next
  assume c: "value c = unmapCommand"
    and d: "d = \<lparr>tokenTypes = [CtkWord, CtkWord], varArgs = False,
            constructor = unmapCommandConstructor\<rparr>"
  with assms(2) show ?thesis
    by (simp add: constructorDiagnosis_def unmapCommandConstructor_def commandNames)
next
  assume c: "value c = quitCommand"
    and d: "d = \<lparr>tokenTypes = [], varArgs = False, constructor = quitCommandConstructor\<rparr>"
  with assms(2) show ?thesis
    by (simp add: constructorDiagnosis_def quitCommandConstructor_def commandNames)
next
  assume c: "value c = addtabCommand"
    and d: "d = \<lparr>tokenTypes = [CtkWord], varArgs = False,
                constructor = newTabCommandConstructor\<rparr>"
  with assms(2) show ?thesis
    by (simp add: constructorDiagnosis_def newTabCommandConstructor_def commandNames)
next
  assume c: "value c = removetabCommand"
    and d: "d = \<lparr>tokenTypes = [], varArgs = False,
                constructor = newRemoveTabCommandConstructor\<rparr>"
  with assms(2) show ?thesis
    by (simp add: constructorDiagnosis_def newRemoveTabCommandConstructor_def commandNames)
qed

lemma finish_diagnosis:
  assumes "commandDescriptors (value c) = Some d"
    and "varArgs d \<or> length args = length (tokenTypes d)"
  shows "\<exists>command. finish d c args p =
           Some ((command, False,
                  map_option (render (inputSource p)) (constructorDiagnosis c args)), p)"
  using constructor_diagnosis [OF assms, of p] by (auto simp: finish_def)

lemma parseCommand_diagnosis:
  assumes "sig (toks p) = rest" and "tokenType c = CtkWord"
  shows "\<exists>command eof p'. parseCommand p c =
           Some ((command, eof,
                  map_option (render (inputSource p))
                    (diagnose (endPos (scanner p)) (Inr c # rest))), p')"
proof (cases "commandDescriptors (value c)")
  case None
  with assms(2) show ?thesis
    by (auto simp: parseCommand_def diagnose_def)
next
  case (Some d)
  show ?thesis
  proof (cases "varArgs d")
    case True
    from parseVarArgsCommand_loop_diagnosis [OF assms(1), of "[]"] obtain p' where
      src: "inputSource p' = inputSource p"
      and L: "case gatherVarArgs rest of
              Inl d \<Rightarrow> parseVarArgsCommand_loop p [] = (Inr (render (inputSource p) d), p')
            | Inr args \<Rightarrow> parseVarArgsCommand_loop p [] = (Inl ([] @ args), p')" by blast
    show ?thesis
    proof (cases "gatherVarArgs rest")
      case (Inl diag)
      with L Some True assms(2) show ?thesis
        by (auto simp: parseCommand_def parseVarArgsCommand_def diagnose_def)
    next
      case (Inr args)
      with L have L': "parseVarArgsCommand_loop p [] = (Inl args, p')" by simp
      from finish_diagnosis [OF Some, of args p'] True obtain command where
        "finish d c args p' =
           Some ((command, False,
                  map_option (render (inputSource p')) (constructorDiagnosis c args)), p')"
        by auto
      with L' Inr Some True assms(2) src show ?thesis
        by (auto simp: parseCommand_def parseVarArgsCommand_def diagnose_def finish_def)
    qed
  next
    case False
    from parseCommand_loop_diagnosis [OF assms(1), of "tokenTypes d" "[]"] obtain p' where
      src: "inputSource p' = inputSource p"
      and L: "case matchFixed (endPos (scanner p)) (tokenTypes d) rest of
              Inl diag \<Rightarrow> \<exists>eof. parseCommand_loop p (tokenTypes d) [] =
                                (Inr (eof, render (inputSource p) diag), p')
            | Inr args \<Rightarrow> parseCommand_loop p (tokenTypes d) [] = (Inl ([] @ args), p')"
      by blast
    show ?thesis
    proof (cases "matchFixed (endPos (scanner p)) (tokenTypes d) rest")
      case (Inl diag)
      with L obtain eof where
        "parseCommand_loop p (tokenTypes d) [] = (Inr (eof, render (inputSource p) diag), p')"
        by auto
      with Inl Some False assms(2) show ?thesis
        by (auto simp: parseCommand_def diagnose_def)
    next
      case (Inr args)
      with L have L': "parseCommand_loop p (tokenTypes d) [] = (Inl args, p')" by simp
      from matchFixed_length [OF Inr] have "length args = length (tokenTypes d)" .
      with finish_diagnosis [OF Some, of args p'] obtain command where
        "finish d c args p' =
           Some ((command, False,
                  map_option (render (inputSource p')) (constructorDiagnosis c args)), p')"
        by auto
      with L' Inr Some False assms(2) src show ?thesis
        by (auto simp: parseCommand_def diagnose_def finish_def)
    qed
  qed
qed

lemma recover_keeps_result:
  "r = Some ((command, eof, e), p) \<Longrightarrow> \<exists>p'. recover r = Some ((command, eof, e), p')"
  by (simp add: recover_def)

lemma Parse_diagnosis:
  "\<exists>command eof p'.
     Parse p =
       Some ((command, eof,
              map_option (render (inputSource p))
                (diagnose (endPos (scanner p)) (upcoming p))), p')"
proof (cases "upcoming p")
  case Nil
  from Parse_upcoming_Nil [OF Nil] show ?thesis
    by (auto simp: Nil diagnose_def)
next
  case (Cons r rest)
  show ?thesis
  proof (cases r)
    case (Inl e)
    with Cons have u: "upcoming p = Inl e # rest" by simp
    from Parse_upcoming_Inl [OF u] show ?thesis
      by (auto simp: u diagnose_def)
  next
    case (Inr t)
    with Cons have u: "upcoming p = Inr t # rest" by simp
    from Parse_upcoming_Inr [OF u] obtain p1 where
      a1: "advanced p rest p1" and P: "Parse p = recover (Parse_switch p1 t)" by blast
    note src = advanced_src [OF a1]
    note ep = advanced_endPos [OF a1]
    have g: "generateParseError p1 t m = generateParseError p t m" for t m
      by (simp add: generateParseError_def src)
    have "\<exists>command eof p2. Parse_switch p1 t =
            Some ((command, eof,
                   map_option (render (inputSource p))
                     (diagnose (endPos (scanner p)) (Inr t # rest))), p2)"
    proof (cases "tokenType t = CtkWord")
      case True
      from parseCommand_diagnosis [OF advanced_sig [OF a1] True] True src ep
      show ?thesis by (auto simp: Parse_switch_def)
    next
      case False
      then show ?thesis
        by (cases "tokenType t") (auto simp: Parse_switch_def diagnose_def g)
    qed
    then obtain command eof p2 where
      "Parse_switch p1 t =
            Some ((command, eof,
                   map_option (render (inputSource p))
                     (diagnose (endPos (scanner p)) (Inr t # rest))), p2)" by blast
    from recover_keeps_result [OF this] P u show ?thesis by auto
  qed
qed

section \<open>The claims\<close>

subsection \<open>Scanner failures\<close>

text \<open>
  C1, as the code has it. When the scanner fails on the leading token or on an argument
  token of a command, \<^verbatim>\<open>Parse\<close> returns the scanner's error unchanged, with no command and
  \<open>eof = False\<close>. When the failure meets the leading token,
  the call returns at once: the scanner stands right behind the failed request. When the
  failure meets an argument token of a command (fixed or variable arity), the error comes
  back from \<^verbatim>\<open>parseCommand\<close> and \<^verbatim>\<open>Parse\<close> runs the recovery before it returns: the
  scanner stands behind the next Terminator, EndOfInput or scanner failure.
\<close>

theorem scanner_failure_returned:
  "(upcoming p = Inl e # rest \<longrightarrow>
      (\<exists>p'. Parse p = Some ((None, False, Some e), p') \<and> sig (toks p') = rest)) \<and>
   (commandDescriptors (value c) = Some d \<and> tokenType c = CtkWord \<and>
    upcoming p = Inr c # map Inr args @ Inl e # rest \<and>
    (\<forall>a \<in> set args. err a = None) \<and>
    (if varArgs d
     then \<forall>a \<in> set args. tokenType a \<noteq> CtkEOF \<and> tokenType a \<noteq> CtkTerminator
     else length args < length (tokenTypes d) \<and>
          map tokenType args = take (length args) (tokenTypes d)) \<longrightarrow>
      (\<exists>p'. Parse p = Some ((None, False, Some e), p') \<and>
            sig (toks p') = afterBoundary rest))"
proof (intro conjI impI)
  assume "upcoming p = Inl e # rest"
  from Parse_upcoming_Inl [OF this]
  show "\<exists>p'. Parse p = Some ((None, False, Some e), p') \<and> sig (toks p') = rest"
    by (auto simp: advanced_def)
next
  assume a: "commandDescriptors (value c) = Some d \<and> tokenType c = CtkWord \<and>
    upcoming p = Inr c # map Inr args @ Inl e # rest \<and>
    (\<forall>a \<in> set args. err a = None) \<and>
    (if varArgs d
     then \<forall>a \<in> set args. tokenType a \<noteq> CtkEOF \<and> tokenType a \<noteq> CtkTerminator
     else length args < length (tokenTypes d) \<and>
          map tokenType args = take (length args) (tokenTypes d))"
  then have d: "commandDescriptors (value c) = Some d" and w: "tokenType c = CtkWord"
    and u: "upcoming p = Inr c # map Inr args @ Inl e # rest"
    and ok: "\<forall>a \<in> set args. err a = None" by simp_all
  from Parse_command [OF u w] obtain p1 where
    a1: "advanced p (map Inr args @ Inl e # rest) p1"
    and P: "Parse p = recover (parseCommand p1 c)" by blast
  have "\<exists>p3. advanced p1 rest p3 \<and> parseCommand p1 c = Some ((None, False, Some e), p3)"
  proof (cases "varArgs d")
    case True
    with a ok have ok': "\<forall>a \<in> set args. err a = None \<and> tokenType a \<noteq> CtkEOF \<and>
                           tokenType a \<noteq> CtkTerminator" by simp
    from parseCommand_varArgs_prefix [OF d True advanced_sig [OF a1] ok'] obtain p2 where
      a2: "advanced p1 (Inl e # rest) p2"
      and C: "parseCommand p1 c =
             (case parseVarArgsCommand_loop p2 args of
                (Inr e, p') \<Rightarrow> Some ((None, False, Some e), p')
              | (Inl tokens, p') \<Rightarrow> finish d c tokens p')" by blast
    from scan_sig_Cons [OF advanced_sig [OF a2]] obtain p3 where
      sc: "scan p2 = (Inl e, p3)" and a3: "advanced p2 rest p3" by blast
    have L: "parseVarArgsCommand_loop p2 args = (Inr e, p3)"
      by (simp add: parseVarArgsCommand_loop.simps [of p2] sc)
    have "parseCommand p1 c = Some ((None, False, Some e), p3)"
      unfolding C L by simp
    with advanced_trans [OF a2 a3] show ?thesis by blast
  next
    case False
    with a have len: "length args < length (tokenTypes d)"
      and m: "map tokenType args = take (length args) (tokenTypes d)" by simp_all
    from parseCommand_fixed_prefix [OF d False advanced_sig [OF a1] m ok] obtain p2 where
      a2: "advanced p1 (Inl e # rest) p2"
      and C: "parseCommand p1 c =
             (case parseCommand_loop p2 (drop (length args) (tokenTypes d)) args of
                (Inr (eof, e), p') \<Rightarrow> Some ((None, eof, Some e), p')
              | (Inl tokens, p') \<Rightarrow> finish d c tokens p')" by blast
    from len obtain ty tys where dr: "drop (length args) (tokenTypes d) = ty # tys"
      by (cases "drop (length args) (tokenTypes d)") auto
    from scan_sig_Cons [OF advanced_sig [OF a2]] obtain p3 where
      sc: "scan p2 = (Inl e, p3)" and a3: "advanced p2 rest p3" by blast
    have L: "parseCommand_loop p2 (ty # tys) args = (Inr (False, e), p3)"
      by (simp add: sc)
    have "parseCommand p1 c = Some ((None, False, Some e), p3)"
      unfolding C dr L by simp
    with advanced_trans [OF a2 a3] show ?thesis by blast
  qed
  then obtain p3 where a3: "advanced p1 rest p3"
    and C: "parseCommand p1 c = Some ((None, False, Some e), p3)" by blast
  have "Parse p = Some ((None, False, Some e), discardTokensUntilNextCommand p3)"
    unfolding P C by (rule recover_error)
  moreover have "sig (toks (discardTokensUntilNextCommand p3)) = afterBoundary rest"
    using discard_sig [OF advanced_sig [OF a3]] by (simp add: advanced_def)
  ultimately show "\<exists>p'. Parse p = Some ((None, False, Some e), p') \<and>
                        sig (toks p') = afterBoundary rest" by blast
qed

theorem scanner_failure_returned_witness:
  "(\<exists>p'. Parse failureAtStart = Some ((None, False, Some ''read error''), p') \<and>
         sig (toks p') =
           [Inr (exampleToken CtkWord ''a''), Inr (exampleToken CtkTerminator '';''),
            Inr (exampleToken CtkWord ''q'')]) \<and>
   (\<exists>p'. Parse failureInArguments = Some ((None, False, Some ''read error''), p') \<and>
         sig (toks p') = [Inr (exampleToken CtkWord ''q'')])"
proof -
  let ?d = "\<lparr>tokenTypes = [CtkWord, CtkWord], varArgs = False,
             constructor = setCommandConstructor\<rparr>"
  let ?rest = "[Inr (exampleToken CtkWord ''a''), Inr (exampleToken CtkTerminator '';''),
                Inr (exampleToken CtkWord ''q'')]"
  have u1: "upcoming failureAtStart = Inl ''read error'' # ?rest"
    by (simp add: upcoming_def sig_def failureAtStart_def exampleParser_def NewConfigParser_def
        significant_def isTerminator_def exampleToken_def)
  have h1: "commandDescriptors (value (exampleToken CtkWord ''set'')) = Some ?d"
    by (simp add: commandDescriptors_def exampleToken_def commandNames)
  have h2: "tokenType (exampleToken CtkWord ''set'') = CtkWord" by (simp add: exampleToken_def)
  have u2: "upcoming failureInArguments =
              Inr (exampleToken CtkWord ''set'') # map Inr [] @ Inl ''read error'' # ?rest"
    by (simp add: upcoming_def sig_def failureInArguments_def exampleParser_def
        NewConfigParser_def significant_def isTerminator_def exampleToken_def)
  have ab: "afterBoundary ?rest = [Inr (exampleToken CtkWord ''q'')]"
    by (simp add: exampleToken_def)
  note th = scanner_failure_returned [of failureAtStart "''read error''" ?rest
      "exampleToken CtkWord ''set''" ?d "[]"]
    scanner_failure_returned [of failureInArguments "''read error''" ?rest
      "exampleToken CtkWord ''set''" ?d "[]"]
  from th(1) u1 have A: "\<exists>p'. Parse failureAtStart = Some ((None, False, Some ''read error''), p') \<and>
         sig (toks p') = ?rest" by blast
  from th(2) h1 h2 u2 have "\<exists>p'. Parse failureInArguments = Some ((None, False, Some ''read error''), p') \<and>
         sig (toks p') = afterBoundary ?rest" by simp
  with A show ?thesis unfolding ab by blast
qed

text \<open>
  Against C1 as stated: after the failure in the arguments of \<^verbatim>\<open>set\<close> the scanner stands
  before \<^verbatim>\<open>a\<close>, and \<^verbatim>\<open>Parse\<close> leaves it before \<^verbatim>\<open>q\<close>: the tokens \<^verbatim>\<open>a\<close> and \<^verbatim>\<open>;\<close> have
  been discarded.
\<close>

theorem scanner_failure_in_arguments_recovers:
  "snd (scan (snd (scan failureInArguments))) =
     exampleParser [Inr (exampleToken CtkWord ''a''), Inr (exampleToken CtkTerminator '';''),
                    Inr (exampleToken CtkWord ''q'')] \<and>
   Parse failureInArguments =
     Some ((None, False, Some ''read error''), exampleParser [Inr (exampleToken CtkWord ''q'')])"
  by code_simp

subsection \<open>Commands that match their grammar\<close>

text \<open>
  C2, as the code has it. The leading Word token names a command of the registry and is
  followed by argument tokens free of lexical errors that match its grammar: for a fixed
  grammar the expected kinds in order and number, for a variable grammar at least one token,
  none of them a Terminator or EndOfInput, before the token at which the accumulation
  stops. For theme, each option token is moreover one of the four recognised switches.
  Then \<^verbatim>\<open>Parse\<close> returns the command value of the specification's table, no error and
  \<open>eof = False\<close>, and leaves the scanner behind the command (behind the stopping token
  for a variable grammar).
\<close>

theorem Parse_command_matching_grammar:
  assumes "commandDescriptors (value c) = Some d" and "tokenType c = CtkWord"
    and "upcoming p = Inr c # map Inr args @ rest"
    and "\<forall>a \<in> set args. err a = None"
    and "if varArgs d
         then args \<noteq> [] \<and>
              (\<forall>a \<in> set args. tokenType a \<noteq> CtkEOF \<and> tokenType a \<noteq> CtkTerminator) \<and>
              stops rest
         else map tokenType args = tokenTypes d"
    and "value c = themeCommand \<longrightarrow>
           (\<forall>(optionToken, v) \<in> set (pairsOf args). recognised optionToken)"
  shows "\<exists>command p'.
           specCommand (value c) args = Some command \<and>
           Parse p = Some ((Some command, False, None), p') \<and>
           sig (toks p') = (if varArgs d then tl rest else rest)"
  using assms by (rule Parse_matching_grammar)

theorem Parse_command_matching_grammar_witness:
  "(\<exists>p'. Parse setFooBar =
           Some ((Some (SetCommand (exampleToken CtkWord ''foo'') (exampleToken CtkWord ''bar'')),
                  False, None), p') \<and>
         sig (toks p') = [Inr (exampleToken CtkTerminator '';'')]) \<and>
   (\<exists>p'. Parse addviewLogFlag =
           Some ((Some (AddViewCommand (exampleToken CtkWord ''log'')
                          [exampleToken CtkOption ''--flag'']), False, None), p') \<and>
         sig (toks p') = [])"
proof -
  let ?ds = "\<lparr>tokenTypes = [CtkWord, CtkWord], varArgs = False,
              constructor = setCommandConstructor\<rparr>"
  let ?da = "\<lparr>tokenTypes = [], varArgs = True, constructor = addViewCommandConstructor\<rparr>"
  let ?as = "[exampleToken CtkWord ''foo'', exampleToken CtkWord ''bar'']"
  let ?aa = "[exampleToken CtkWord ''log'', exampleToken CtkOption ''--flag'']"
  let ?t = "[Inr (exampleToken CtkTerminator '';'')]"
  have s1: "commandDescriptors (value (exampleToken CtkWord ''set'')) = Some ?ds"
    by (simp add: commandDescriptors_def exampleToken_def commandNames)
  have a1: "commandDescriptors (value (exampleToken CtkWord ''addview'')) = Some ?da"
    by (simp add: commandDescriptors_def exampleToken_def commandNames)
  have s2: "tokenType (exampleToken CtkWord ''set'') = CtkWord"
    and a2: "tokenType (exampleToken CtkWord ''addview'') = CtkWord"
    by (simp_all add: exampleToken_def)
  have s3: "upcoming setFooBar = Inr (exampleToken CtkWord ''set'') # map Inr ?as @ ?t"
    by (simp add: upcoming_def sig_def setFooBar_def exampleParser_def NewConfigParser_def
        significant_def isTerminator_def exampleToken_def)
  have a3: "upcoming addviewLogFlag = Inr (exampleToken CtkWord ''addview'') # map Inr ?aa @ ?t"
    by (simp add: upcoming_def sig_def addviewLogFlag_def exampleParser_def NewConfigParser_def
        significant_def isTerminator_def exampleToken_def)
  have s4: "\<forall>a \<in> set ?as. err a = None" and a4: "\<forall>a \<in> set ?aa. err a = None"
    by (simp_all add: exampleToken_def)
  have s5: "if varArgs ?ds
         then ?as \<noteq> [] \<and>
              (\<forall>a \<in> set ?as. tokenType a \<noteq> CtkEOF \<and> tokenType a \<noteq> CtkTerminator) \<and>
              stops ?t
         else map tokenType ?as = tokenTypes ?ds"
    by (simp add: exampleToken_def)
  have a5: "if varArgs ?da
         then ?aa \<noteq> [] \<and>
              (\<forall>a \<in> set ?aa. tokenType a \<noteq> CtkEOF \<and> tokenType a \<noteq> CtkTerminator) \<and>
              stops ?t
         else map tokenType ?aa = tokenTypes ?da"
    by (simp add: exampleToken_def)
  have s6: "value (exampleToken CtkWord ''set'') = themeCommand \<longrightarrow>
           (\<forall>(optionToken, v) \<in> set (pairsOf ?as). recognised optionToken)"
    and a6: "value (exampleToken CtkWord ''addview'') = themeCommand \<longrightarrow>
           (\<forall>(optionToken, v) \<in> set (pairsOf ?aa). recognised optionToken)"
    by (simp_all add: exampleToken_def commandNames)
  have sp: "specCommand (value (exampleToken CtkWord ''set'')) ?as =
              Some (SetCommand (exampleToken CtkWord ''foo'') (exampleToken CtkWord ''bar''))"
    "specCommand (value (exampleToken CtkWord ''addview'')) ?aa =
              Some (AddViewCommand (exampleToken CtkWord ''log'') [exampleToken CtkOption ''--flag''])"
    by (simp_all add: specCommand_def exampleToken_def commandNames)
  from Parse_command_matching_grammar [OF s1 s2 s3 s4 s5 s6]
    Parse_command_matching_grammar [OF a1 a2 a3 a4 a5 a6]
  show ?thesis unfolding sp by simp
qed

text \<open>
  Against C2 as stated: the tokens of \<^verbatim>\<open>theme --bogus X --name A --component C --bgcolor 1\<close>
  match the grammar of theme, kind by kind and in number, and carry no lexical error, yet
  \<^verbatim>\<open>Parse\<close> returns an error and no command.
\<close>

theorem theme_matching_grammar_rejected:
  "map_option tokenTypes (commandDescriptors ''theme'') =
     Some (map tokenType (flatten themePairsBogus)) \<and>
   list_all (\<lambda>a. err a = None) (flatten themePairsBogus) \<and>
   Parse themeBogus =
     Some ((None, False, Some ''grvrc:3:14 Invalid option for theme command: \"--bogus\"''),
           exampleParser [])"
  by code_simp

subsection \<open>Recovery after a failed command\<close>

text \<open>
  C3 at the input \<^verbatim>\<open>addview ; set a b ;\<close>. The command \<^verbatim>\<open>addview\<close> has no argument:
  \<^verbatim>\<open>parseVarArgsCommand\<close> reads the Terminator of its line before the constructor reports
  the usage error, and the recovery then discards up to the next Terminator, which ends the
  line of \<^verbatim>\<open>set a b\<close>. The next call of \<^verbatim>\<open>Parse\<close> finds the input at its end; the command
  \<^verbatim>\<open>set a b\<close> is lost. The same at \<^verbatim>\<open>map onlyoneword ; set a b ;\<close>, where \<^verbatim>\<open>parseCommand\<close>
  meets the Terminator in the place of the second argument.
\<close>

theorem recovery_discards_following_line:
  "Parse addviewThenSet =
     Some ((None, False,
            Some ''grvrc:3:14 Invalid addview command. Usage: addview [VIEW] [ARGS...]''),
           exampleParser []) \<and>
   Parse mapThenSet =
     Some ((None, False, Some ''grvrc:3:14 Expected Word but got Terminator: \";\"''),
           exampleParser []) \<and>
   Parse (exampleParser []) = Some ((None, True, None), exampleParser [])"
  by code_simp

subsection \<open>End of input inside a fixed-arity command\<close>

text \<open>
  C4. A fixed-arity command is followed by fewer argument tokens than its grammar expects,
  each of the expected kind and free of lexical errors, and then by the end of the input
  (an EndOfInput token without a lexical error, or the scanner's answers used up). Then
  \<^verbatim>\<open>Parse\<close> returns no command, \<open>eof = True\<close> and the error "Unexpected EOF" for that
  EndOfInput token, after the position prefix.
\<close>

theorem fixed_arity_unexpected_eof:
  assumes "commandDescriptors (value c) = Some d" and "\<not> varArgs d"
    and "tokenType c = CtkWord"
    and "upcoming p = Inr c # map Inr args @ rest"
    and "length args < length (tokenTypes d)"
    and "map tokenType args = take (length args) (tokenTypes d)"
    and "\<forall>a \<in> set args. err a = None"
    and "rest = [] \<or> (\<exists>t rest'. rest = Inr t # rest' \<and> tokenType t = CtkEOF \<and> err t = None)"
  shows "\<exists>p' t. Parse p =
                   Some ((None, True,
                          Some (positionPrefix (inputSource p) t @ ''Unexpected EOF'')), p') \<and>
                tokenType t = CtkEOF \<and>
                Inr t = (case rest of [] \<Rightarrow> Inr (eofToken (endPos (scanner p))) | r # rs \<Rightarrow> r)"
proof -
  from Parse_command [OF assms(4,3)] obtain p1 where
    a1: "advanced p (map Inr args @ rest) p1" and P: "Parse p = recover (parseCommand p1 c)"
    by blast
  from parseCommand_fixed_prefix [OF assms(1,2) advanced_sig [OF a1] assms(6,7)] obtain p2 where
    a2: "advanced p1 rest p2"
    and C: "parseCommand p1 c =
             (case parseCommand_loop p2 (drop (length args) (tokenTypes d)) args of
                (Inr (eof, e), p') \<Rightarrow> Some ((None, eof, Some e), p')
              | (Inl tokens, p') \<Rightarrow> finish d c tokens p')" by blast
  from assms(5) obtain ty tys where dr: "drop (length args) (tokenTypes d) = ty # tys"
    by (cases "drop (length args) (tokenTypes d)") auto
  from scan_next [of p2] advanced_sig [OF a2] obtain p3 where
    a3: "advanced p2 (tl rest) p3"
    and sc: "scan p2 = (case rest of [] \<Rightarrow> Inr (eofToken (endPos (scanner p2))) | r # rs \<Rightarrow> r, p3)"
    by auto
  from a1 a2 have pos: "endPos (scanner p2) = endPos (scanner p)"
    by (simp add: advanced_def)
  from a1 a2 a3 have src: "inputSource p3 = inputSource p"
    by (simp add: advanced_def)
  define t where "t = (case rest of [] \<Rightarrow> eofToken (endPos (scanner p)) | r # rs \<Rightarrow> projr r)"
  from assms(8) have t: "tokenType t = CtkEOF" "err t = None"
    "(case rest of [] \<Rightarrow> Inr (eofToken (endPos (scanner p))) | r # rs \<Rightarrow> r) = Inr t"
    by (auto simp: t_def eofToken_def)
  from sc t(3) pos have sc': "scan p2 = (Inr t, p3)" by (cases rest) simp_all
  have L: "parseCommand_loop p2 (ty # tys) args =
           (Inr (True, generateParseError p3 t ''Unexpected EOF''), p3)"
    using t by (simp add: sc')
  have g: "generateParseError p3 t ''Unexpected EOF'' =
           positionPrefix (inputSource p) t @ ''Unexpected EOF''"
    using t(2) by (simp add: generateParseError_shape src lexSuffix_def)
  have "Parse p = Some ((None, True, Some (positionPrefix (inputSource p) t @ ''Unexpected EOF'')),
                        discardTokensUntilNextCommand p3)"
    unfolding P C dr L by (simp add: g recover_error)
  with t show ?thesis by auto
qed

theorem fixed_arity_unexpected_eof_witness:
  "\<exists>p'. Parse truncatedSet = Some ((None, True, Some ''grvrc:7:1 Unexpected EOF''), p')"
proof -
  let ?d = "\<lparr>tokenTypes = [CtkWord, CtkWord], varArgs = False,
             constructor = setCommandConstructor\<rparr>"
  have h1: "commandDescriptors (value (exampleToken CtkWord ''set'')) = Some ?d"
    by (simp add: commandDescriptors_def exampleToken_def commandNames)
  have h2: "\<not> varArgs ?d" by simp
  have h3: "tokenType (exampleToken CtkWord ''set'') = CtkWord" by (simp add: exampleToken_def)
  have h4: "upcoming truncatedSet =
              Inr (exampleToken CtkWord ''set'') # map Inr [exampleToken CtkWord ''foo''] @ []"
    by (simp add: upcoming_def sig_def truncatedSet_def exampleParser_def NewConfigParser_def
        significant_def isTerminator_def exampleToken_def)
  have h5: "length [exampleToken CtkWord ''foo''] < length (tokenTypes ?d)" by simp
  have h6: "map tokenType [exampleToken CtkWord ''foo''] =
              take (length [exampleToken CtkWord ''foo'']) (tokenTypes ?d)"
    by (simp add: exampleToken_def)
  have h7: "\<forall>a \<in> set [exampleToken CtkWord ''foo'']. err a = None"
    by (simp add: exampleToken_def)
  have h8: "([] :: ScanResult list) = [] \<or>
            (\<exists>t rest'. ([] :: ScanResult list) = Inr t # rest' \<and> tokenType t = CtkEOF \<and> err t = None)"
    by simp
  have sh: "showNat 7 = ''7''" "showNat (Suc 0) = ''1''" by code_simp+
  from fixed_arity_unexpected_eof [OF h1 h2 h3 h4 h5 h6 h7 h8]
  show ?thesis
    by (auto simp: positionPrefix_def truncatedSet_def exampleParser_def NewConfigParser_def
        eofToken_def sh)
qed

subsection \<open>Theme options in any order\<close>

text \<open>
  C5. A theme command whose option tokens are all recognised yields a Theme value in which
  each field holds the value token of the last pair whose option names that field, and is
  unset when no pair names it; hence, for pairwise different options, the order of the pairs
  does not matter, and a repeated option keeps the value of its last occurrence.
\<close>

theorem theme_fields_by_option:
  assumes "\<forall>(optionToken, v) \<in> set pairs. recognised optionToken"
  shows "themeCommandConstructor parser commandToken (flatten pairs) =
           Some (Some (ThemeCmd \<lparr>name = lastValueFor ''--name'' pairs,
                                  component = lastValueFor ''--component'' pairs,
                                  bgcolor = lastValueFor ''--bgcolor'' pairs,
                                  fgcolor = lastValueFor ''--fgcolor'' pairs\<rparr>), None) \<and>
         (\<forall>pairs'. mset pairs' = mset pairs \<and>
                    distinct (map (\<lambda>(optionToken, v). value optionToken) pairs) \<longrightarrow>
            themeCommandConstructor parser commandToken (flatten pairs') =
            themeCommandConstructor parser commandToken (flatten pairs)) \<and>
         (\<forall>pre optionToken v post.
            pairs = pre @ (optionToken, v) # post \<and>
            value optionToken \<notin> (\<lambda>(optionToken, v). value optionToken) ` set post \<longrightarrow>
            lastValueFor (value optionToken) pairs = Some v) \<and>
         (\<forall>opt. opt \<notin> (\<lambda>(optionToken, v). value optionToken) ` set pairs \<longrightarrow>
            lastValueFor opt pairs = None)"
proof (intro conjI allI impI)
  show "themeCommandConstructor parser commandToken (flatten pairs) =
          Some (Some (ThemeCmd \<lparr>name = lastValueFor ''--name'' pairs,
                                 component = lastValueFor ''--component'' pairs,
                                 bgcolor = lastValueFor ''--bgcolor'' pairs,
                                 fgcolor = lastValueFor ''--fgcolor'' pairs\<rparr>), None)"
    by (rule theme_constructor_all_recognised [OF assms])
next
  fix pairs'
  assume a: "mset pairs' = mset pairs \<and>
             distinct (map (\<lambda>(optionToken, v). value optionToken) pairs)"
  then have "mset pairs' = mset pairs" by simp
  then have "set pairs' = set pairs" by (rule mset_eq_setD)
  with assms have rec': "\<forall>(optionToken, v) \<in> set pairs'. recognised optionToken" by simp
  from a have "lastValueFor opt pairs' = lastValueFor opt pairs" for opt
    by (intro lastValueFor_perm) simp_all
  then show "themeCommandConstructor parser commandToken (flatten pairs') =
             themeCommandConstructor parser commandToken (flatten pairs)"
    by (simp add: theme_constructor_all_recognised [OF assms]
        theme_constructor_all_recognised [OF rec'])
next
  fix pre optionToken v post
  assume "pairs = pre @ (optionToken, v) # post \<and>
          value optionToken \<notin> (\<lambda>(optionToken, v). value optionToken) ` set post"
  then show "lastValueFor (value optionToken) pairs = Some v"
    by (simp add: lastValueFor_last)
next
  fix opt
  assume "opt \<notin> (\<lambda>(optionToken, v). value optionToken) ` set pairs"
  then show "lastValueFor opt pairs = None" by (rule lastValueFor_absent)
qed

theorem theme_fields_by_option_witness:
  "list_all (\<lambda>(optionToken, v). recognised optionToken) themePairsRepeated \<and>
   themeCommandConstructor (exampleParser []) (exampleToken CtkWord ''theme'')
       (flatten themePairsRepeated) =
     Some (Some (ThemeCmd \<lparr>name = Some (exampleToken CtkWord ''B''),
                            component = Some (exampleToken CtkWord ''C''),
                            bgcolor = Some (exampleToken CtkWord ''1''),
                            fgcolor = None\<rparr>), None) \<and>
   list_all (\<lambda>(optionToken, v). recognised optionToken) themePairsReordered \<and>
   themeCommandConstructor (exampleParser []) (exampleToken CtkWord ''theme'')
       (flatten themePairsReordered) =
     Some (Some (ThemeCmd \<lparr>name = Some (exampleToken CtkWord ''X''),
                            component = Some (exampleToken CtkWord ''Y''),
                            bgcolor = Some (exampleToken CtkWord ''1''),
                            fgcolor = Some (exampleToken CtkWord ''2'')\<rparr>), None)"
proof -
  have h: "\<forall>(optionToken, v) \<in> set themePairsRepeated. recognised optionToken"
    by (simp add: themePairsRepeated_def recognised_def exampleToken_def)
  have h': "\<forall>(optionToken, v) \<in> set themePairsReordered. recognised optionToken"
    by (simp add: themePairsReordered_def recognised_def exampleToken_def)
  have "lastValueFor ''--name'' themePairsRepeated = Some (exampleToken CtkWord ''B'')"
       "lastValueFor ''--component'' themePairsRepeated = Some (exampleToken CtkWord ''C'')"
       "lastValueFor ''--bgcolor'' themePairsRepeated = Some (exampleToken CtkWord ''1'')"
       "lastValueFor ''--fgcolor'' themePairsRepeated = None"
       "lastValueFor ''--name'' themePairsReordered = Some (exampleToken CtkWord ''X'')"
       "lastValueFor ''--component'' themePairsReordered = Some (exampleToken CtkWord ''Y'')"
       "lastValueFor ''--bgcolor'' themePairsReordered = Some (exampleToken CtkWord ''1'')"
       "lastValueFor ''--fgcolor'' themePairsReordered = Some (exampleToken CtkWord ''2'')"
    by (simp_all add: lastValueFor_def themePairsRepeated_def themePairsReordered_def
        exampleToken_def)
  with h h' theme_fields_by_option [OF h, of "exampleParser []" "exampleToken CtkWord ''theme''"]
    theme_fields_by_option [OF h', of "exampleParser []" "exampleToken CtkWord ''theme''"]
  show ?thesis by (simp add: list_all_iff)
qed

subsection \<open>Unrecognised theme options\<close>

text \<open>
  C6. When some option token of a theme command is not one of the four recognised
  switches, the constructor returns no command and the error built for the first such
  option token; the text of that option occurs in the error string.
\<close>

theorem theme_unknown_option_rejected:
  assumes "\<exists>(optionToken, v) \<in> set pairs. \<not> recognised optionToken"
  shows "\<exists>pre bad v post.
           pairs = pre @ (bad, v) # post \<and>
           (\<forall>(optionToken, w) \<in> set pre. recognised optionToken) \<and> \<not> recognised bad \<and>
           themeCommandConstructor parser commandToken (flatten pairs) =
             Some (None, Some (generateParseError parser bad
                     (''Invalid option for theme command: \"'' @ value bad @ ''\"''))) \<and>
           (\<exists>before after.
              generateParseError parser bad
                (''Invalid option for theme command: \"'' @ value bad @ ''\"'') =
              before @ value bad @ after)"
proof -
  from assms have "\<exists>pr \<in> set pairs. \<not> recognised (fst pr)" by force
  from split_list_first_prop [OF this] obtain pre pr post where
    dec: "pairs = pre @ pr # post" and bad: "\<not> recognised (fst pr)"
    and good: "\<forall>q \<in> set pre. \<not> \<not> recognised (fst q)" by blast
  obtain b v where pr: "pr = (b, v)" by (cases pr)
  from good have good': "\<forall>(optionToken, w) \<in> set pre. recognised optionToken" by auto
  from bad pr have bad': "\<not> recognised b" by simp
  have res: "themeCommandConstructor parser commandToken (flatten pairs) =
          Some (None, Some (generateParseError parser b
                  (''Invalid option for theme command: \"'' @ value b @ ''\"'')))"
    unfolding dec pr
    by (simp add: themeCommandConstructor_def theme_loop_first_unrecognised [OF good' bad'])
  have "generateParseError parser b (''Invalid option for theme command: \"'' @ value b @ ''\"'') =
        (positionPrefix (inputSource parser) b @ ''Invalid option for theme command: \"'') @
        value b @ (''\"'' @ lexSuffix b)"
    by (simp add: generateParseError_shape)
  then have "\<exists>before after.
      generateParseError parser b (''Invalid option for theme command: \"'' @ value b @ ''\"'') =
      before @ value b @ after" by blast
  with dec pr good' bad' res show ?thesis by blast
qed

theorem theme_unknown_option_rejected_witness:
  "(\<exists>(optionToken, v) \<in> set themePairsBogus. \<not> recognised optionToken) \<and>
   themeCommandConstructor (exampleParser []) (exampleToken CtkWord ''theme'')
       (flatten themePairsBogus) =
     Some (None, Some ''grvrc:3:14 Invalid option for theme command: \"--bogus\"'')"
proof -
  have h: "\<exists>(optionToken, v) \<in> set themePairsBogus. \<not> recognised optionToken"
    by (simp add: themePairsBogus_def recognised_def exampleToken_def)
  from theme_unknown_option_rejected [OF h, of "exampleParser []" "exampleToken CtkWord ''theme''"]
  obtain pre bad v post where
    dec: "themePairsBogus = pre @ (bad, v) # post"
    and good: "\<forall>(optionToken, w) \<in> set pre. recognised optionToken"
    and res: "themeCommandConstructor (exampleParser []) (exampleToken CtkWord ''theme'')
                (flatten themePairsBogus) =
              Some (None, Some (generateParseError (exampleParser []) bad
                      (''Invalid option for theme command: \"'' @ value bad @ ''\"'')))"
    by blast
  have "pre = []"
  proof (cases pre)
    case Nil then show ?thesis .
  next
    case (Cons q qs)
    with dec have "q = (exampleToken CtkOption ''--bogus'', exampleToken CtkWord ''X'')"
      by (simp add: themePairsBogus_def)
    with good Cons show ?thesis by (simp add: recognised_def exampleToken_def)
  qed
  with dec have "bad = exampleToken CtkOption ''--bogus''"
    by (simp add: themePairsBogus_def)
  moreover have "showNat 3 = ''3''" "showNat 14 = ''14''" by code_simp+
  ultimately show ?thesis using h res
    by (simp add: generateParseError_def generateConfigError_def exampleParser_def
        NewConfigParser_def exampleToken_def)
qed

subsection \<open>View and arguments of the variable-arity commands\<close>

text \<open>
  C7. For each of addview, split, hsplit and vsplit the registry holds a variable-arity
  descriptor whose constructor, given no argument token, returns no command and the usage
  error that names the command, and, given the tokens \<open>t # ts\<close>, returns a command with
  view \<open>t\<close> and args \<open>ts\<close>.
\<close>

theorem varArgs_constructor_view_args:
  assumes "cmd \<in> {addviewCommand, splitCommand, hsplitCommand, vsplitCommand}"
    and "value commandToken = cmd"
  shows "\<exists>d. commandDescriptors cmd = Some d \<and> varArgs d \<and>
           constructor d parser commandToken [] =
             Some (None, Some (generateParseError parser commandToken
                     (''Invalid '' @ cmd @ '' command. Usage: '' @ cmd @ '' [VIEW] [ARGS...]''))) \<and>
           (\<forall>t ts. \<exists>orientation.
              constructor d parser commandToken (t # ts) =
                Some (Some (if cmd = addviewCommand then AddViewCommand t ts
                            else SplitViewCommand orientation t ts), None))"
proof -
  from assms(1) consider "cmd = addviewCommand" | "cmd = splitCommand"
    | "cmd = hsplitCommand" | "cmd = vsplitCommand" by blast
  then show ?thesis
  proof cases
    case 1
    with assms(2) show ?thesis
      by (simp add: commandDescriptors_varArgs addViewCommandConstructor_def)
  next
    case 2
    with assms(2) show ?thesis
      by (simp add: commandDescriptors_varArgs splitViewCommandConstructor_def)
         (simp add: commandNames)
  next
    case 3
    with assms(2) show ?thesis
      by (simp add: commandDescriptors_varArgs splitViewCommandConstructor_def)
         (simp add: commandNames)
  next
    case 4
    with assms(2) show ?thesis
      by (simp add: commandDescriptors_varArgs splitViewCommandConstructor_def)
         (simp add: commandNames)
  qed
qed

theorem varArgs_constructor_view_args_witness:
  "constructor (the (commandDescriptors ''addview'')) (exampleParser [])
       (exampleToken CtkWord ''addview'') [] =
     Some (None, Some ''grvrc:3:14 Invalid addview command. Usage: addview [VIEW] [ARGS...]'') \<and>
   constructor (the (commandDescriptors ''addview'')) (exampleParser [])
       (exampleToken CtkWord ''addview'')
       [exampleToken CtkWord ''log'', exampleToken CtkOption ''--flag''] =
     Some (Some (AddViewCommand (exampleToken CtkWord ''log'') [exampleToken CtkOption ''--flag'']),
           None)"
proof -
  have n: "''addview'' = addviewCommand" by (simp add: addviewCommand_def)
  have h1: "addviewCommand \<in> {addviewCommand, splitCommand, hsplitCommand, vsplitCommand}"
    by simp
  have h2: "value (exampleToken CtkWord ''addview'') = addviewCommand"
    by (simp add: exampleToken_def addviewCommand_def)
  have sh: "showNat 3 = ''3''" "showNat 14 = ''14''" by code_simp+
  from varArgs_constructor_view_args [OF h1 h2, of "exampleParser []"]
  obtain d where d: "commandDescriptors addviewCommand = Some d"
    and e: "constructor d (exampleParser []) (exampleToken CtkWord ''addview'') [] =
             Some (None, Some (generateParseError (exampleParser []) (exampleToken CtkWord ''addview'')
                     (''Invalid '' @ addviewCommand @ '' command. Usage: '' @ addviewCommand @
                      '' [VIEW] [ARGS...]'')))"
    and c: "\<forall>t ts. \<exists>orientation.
              constructor d (exampleParser []) (exampleToken CtkWord ''addview'') (t # ts) =
                Some (Some (if addviewCommand = addviewCommand then AddViewCommand t ts
                            else SplitViewCommand orientation t ts), None)"
    by blast
  from c have c': "constructor d (exampleParser []) (exampleToken CtkWord ''addview'')
                     [exampleToken CtkWord ''log'', exampleToken CtkOption ''--flag''] =
                   Some (Some (AddViewCommand (exampleToken CtkWord ''log'')
                                 [exampleToken CtkOption ''--flag'']), None)"
    by simp
  have "generateParseError (exampleParser []) (exampleToken CtkWord ''addview'')
          (''Invalid '' @ addviewCommand @ '' command. Usage: '' @ addviewCommand @
           '' [VIEW] [ARGS...]'') =
        ''grvrc:3:14 Invalid addview command. Usage: addview [VIEW] [ARGS...]''"
    by (simp add: generateParseError_def generateConfigError_def exampleParser_def
        NewConfigParser_def exampleToken_def sh addviewCommand_def)
  with d e c' show ?thesis by (simp add: n)
qed

subsection \<open>Orientation of a split\<close>

text \<open>
  C8. The split-view constructor, given at least one argument token, takes the orientation
  from the text of the command-name token alone: split gives Dynamic, hsplit Horizontal,
  vsplit Vertical, and any other name gives an error and no command; without an argument
  token every name gives the usage error. The registry sends exactly these three names to
  this constructor.
\<close>

theorem splitView_orientation_from_name:
  assumes "tokens \<noteq> []"
  shows "(value commandToken = splitCommand \<longrightarrow>
            splitViewCommandConstructor parser commandToken tokens =
              Some (Some (SplitViewCommand CoDynamic (hd tokens) (tl tokens)), None)) \<and>
         (value commandToken = hsplitCommand \<longrightarrow>
            splitViewCommandConstructor parser commandToken tokens =
              Some (Some (SplitViewCommand CoHorizontal (hd tokens) (tl tokens)), None)) \<and>
         (value commandToken = vsplitCommand \<longrightarrow>
            splitViewCommandConstructor parser commandToken tokens =
              Some (Some (SplitViewCommand CoVertical (hd tokens) (tl tokens)), None)) \<and>
         (value commandToken \<notin> {splitCommand, hsplitCommand, vsplitCommand} \<longrightarrow>
            splitViewCommandConstructor parser commandToken tokens =
              Some (None, Some (generateParseError parser commandToken
                      (''Unrecognised command: '' @ value commandToken)))) \<and>
         splitViewCommandConstructor parser commandToken [] =
           Some (None, Some (generateParseError parser commandToken
                   (''Invalid '' @ value commandToken @ '' command. Usage: '' @
                    value commandToken @ '' [VIEW] [ARGS...]''))) \<and>
         (\<forall>cmd d. commandDescriptors cmd = Some d \<longrightarrow>
            (constructor d = splitViewCommandConstructor \<longleftrightarrow>
             cmd \<in> {splitCommand, hsplitCommand, vsplitCommand}))"
proof -
  from assms obtain t ts where ts: "tokens = t # ts" by (cases tokens) auto
  have none: "splitViewCommandConstructor parser commandToken [] =
           Some (None, Some (generateParseError parser commandToken
                   (''Invalid '' @ value commandToken @ '' command. Usage: '' @
                    value commandToken @ '' [VIEW] [ARGS...]'')))"
    by (simp add: splitViewCommandConstructor_def Let_def)
  have names: "splitCommand \<noteq> hsplitCommand" "splitCommand \<noteq> vsplitCommand"
    "hsplitCommand \<noteq> vsplitCommand"
    by (simp_all add: commandNames)
  have ctor: "setCommandConstructor \<noteq> splitViewCommandConstructor"
    "themeCommandConstructor \<noteq> splitViewCommandConstructor"
    "mapCommandConstructor \<noteq> splitViewCommandConstructor"
    "unmapCommandConstructor \<noteq> splitViewCommandConstructor"
    "quitCommandConstructor \<noteq> splitViewCommandConstructor"
    "newTabCommandConstructor \<noteq> splitViewCommandConstructor"
    "newRemoveTabCommandConstructor \<noteq> splitViewCommandConstructor"
    "addViewCommandConstructor \<noteq> splitViewCommandConstructor"
  proof -
    let ?c = "\<lparr>tokenType = CtkWord, value = ''split'', startPos = \<lparr>line = 0, col = 0\<rparr>,
               err = None\<rparr>"
    let ?p = "\<lparr>scanner = \<lparr>pending = [], endPos = \<lparr>line = 0, col = 0\<rparr>\<rparr>, inputSource = []\<rparr>"
    have s: "splitViewCommandConstructor ?p ?c [] \<noteq> None"
      "splitViewCommandConstructor ?p ?c [] \<noteq> Some (Some QuitCommand, None)"
      "splitViewCommandConstructor ?p ?c [] \<noteq> Some (Some RemoveTabCommand, None)"
      "splitViewCommandConstructor ?p ?c [?c] \<noteq> Some (Some (AddViewCommand ?c []), None)"
      "splitViewCommandConstructor ?p ?c [] \<noteq>
         Some (Some (ThemeCmd \<lparr>name = None, component = None, bgcolor = None, fgcolor = None\<rparr>),
               None)"
      by (simp_all add: splitViewCommandConstructor_def splitCommand_def)
    show "setCommandConstructor \<noteq> splitViewCommandConstructor"
    proof
      assume "setCommandConstructor = splitViewCommandConstructor"
      then have "setCommandConstructor ?p ?c [] = splitViewCommandConstructor ?p ?c []" by simp
      with s(1) show False by (simp add: setCommandConstructor_def)
    qed
    show "themeCommandConstructor \<noteq> splitViewCommandConstructor"
    proof
      assume "themeCommandConstructor = splitViewCommandConstructor"
      then have "themeCommandConstructor ?p ?c [] = splitViewCommandConstructor ?p ?c []" by simp
      with s(5) show False by (simp add: themeCommandConstructor_def)
    qed
    show "mapCommandConstructor \<noteq> splitViewCommandConstructor"
    proof
      assume "mapCommandConstructor = splitViewCommandConstructor"
      then have "mapCommandConstructor ?p ?c [] = splitViewCommandConstructor ?p ?c []" by simp
      with s(1) show False by (simp add: mapCommandConstructor_def)
    qed
    show "unmapCommandConstructor \<noteq> splitViewCommandConstructor"
    proof
      assume "unmapCommandConstructor = splitViewCommandConstructor"
      then have "unmapCommandConstructor ?p ?c [] = splitViewCommandConstructor ?p ?c []" by simp
      with s(1) show False by (simp add: unmapCommandConstructor_def)
    qed
    show "quitCommandConstructor \<noteq> splitViewCommandConstructor"
    proof
      assume "quitCommandConstructor = splitViewCommandConstructor"
      then have "quitCommandConstructor ?p ?c [] = splitViewCommandConstructor ?p ?c []" by simp
      with s(2) show False by (simp add: quitCommandConstructor_def)
    qed
    show "newTabCommandConstructor \<noteq> splitViewCommandConstructor"
    proof
      assume "newTabCommandConstructor = splitViewCommandConstructor"
      then have "newTabCommandConstructor ?p ?c [] = splitViewCommandConstructor ?p ?c []" by simp
      with s(1) show False by (simp add: newTabCommandConstructor_def)
    qed
    show "newRemoveTabCommandConstructor \<noteq> splitViewCommandConstructor"
    proof
      assume "newRemoveTabCommandConstructor = splitViewCommandConstructor"
      then have "newRemoveTabCommandConstructor ?p ?c [] = splitViewCommandConstructor ?p ?c []" by simp
      with s(3) show False by (simp add: newRemoveTabCommandConstructor_def)
    qed
    show "addViewCommandConstructor \<noteq> splitViewCommandConstructor"
    proof
      assume "addViewCommandConstructor = splitViewCommandConstructor"
      then have "addViewCommandConstructor ?p ?c [?c] = splitViewCommandConstructor ?p ?c [?c]"
        by simp
      with s(4) show False by (simp add: addViewCommandConstructor_def)
    qed
  qed
  have reg: "\<forall>cmd d. commandDescriptors cmd = Some d \<longrightarrow>
            (constructor d = splitViewCommandConstructor \<longleftrightarrow>
             cmd \<in> {splitCommand, hsplitCommand, vsplitCommand})"
  proof (intro allI impI)
    fix cmd d
    assume "commandDescriptors cmd = Some d"
    from commandDescriptors_cases [OF this]
    show "constructor d = splitViewCommandConstructor \<longleftrightarrow>
          cmd \<in> {splitCommand, hsplitCommand, vsplitCommand}"
      using ctor by (elim disjE conjE) (auto simp: commandNames)
  qed
  show ?thesis
    using names reg none by (simp add: ts splitViewCommandConstructor_def)
qed

theorem splitView_orientation_from_name_witness:
  "splitViewCommandConstructor (exampleParser []) (exampleToken CtkWord ''vsplit'')
       [exampleToken CtkWord ''tree''] =
     Some (Some (SplitViewCommand CoVertical (exampleToken CtkWord ''tree'') []), None) \<and>
   splitViewCommandConstructor (exampleParser []) (exampleToken CtkWord ''split'')
       [exampleToken CtkWord ''tree''] =
     Some (Some (SplitViewCommand CoDynamic (exampleToken CtkWord ''tree'') []), None) \<and>
   splitViewCommandConstructor (exampleParser []) (exampleToken CtkWord ''addview'')
       [exampleToken CtkWord ''tree''] =
     Some (None, Some ''grvrc:3:14 Unrecognised command: addview'')"
proof -
  have h: "[exampleToken CtkWord ''tree''] \<noteq> []" by simp
  have sh: "showNat 3 = ''3''" "showNat 14 = ''14''" by code_simp+
  have v: "value (exampleToken CtkWord ''vsplit'') = vsplitCommand"
    "value (exampleToken CtkWord ''split'') = splitCommand"
    "value (exampleToken CtkWord ''addview'') \<notin> {splitCommand, hsplitCommand, vsplitCommand}"
    by (simp_all add: exampleToken_def commandNames)
  have g: "generateParseError (exampleParser []) (exampleToken CtkWord ''addview'')
             (''Unrecognised command: '' @ value (exampleToken CtkWord ''addview'')) =
           ''grvrc:3:14 Unrecognised command: addview''"
    by (simp add: generateParseError_def generateConfigError_def exampleParser_def
        NewConfigParser_def exampleToken_def sh)
  from splitView_orientation_from_name [OF h, of "exampleToken CtkWord ''vsplit''" "exampleParser []"]
    splitView_orientation_from_name [OF h, of "exampleToken CtkWord ''split''" "exampleParser []"]
    splitView_orientation_from_name [OF h, of "exampleToken CtkWord ''addview''" "exampleParser []"]
    v g
  show ?thesis by simp
qed

subsection \<open>The format of error strings\<close>

text \<open>
  C9. \<^verbatim>\<open>generateParseError\<close> is \<^verbatim>\<open>generateConfigError\<close> at the parser's source label. With
  a non-empty label the string starts with label, line and column of the token's start
  position, as \<^verbatim>\<open>label:line:col\<close> and a space; with an empty label there is no such prefix.
  The message follows, and then a colon, a space and the token's lexical error, when it has
  one. Every call of \<^verbatim>\<open>Parse\<close> returns, and its error is the one that the diagnosis of the
  upcoming answers names: none when there is no diagnosis, the scanner's own error for a
  scanner failure, and for every error of the parser the string of this format for the
  offending token and the message of that error site.
\<close>

theorem error_strings_single_format:
  "generateParseError parser token msg = generateConfigError (inputSource parser) token msg \<and>
   generateConfigError src token msg =
     (if src = [] then []
      else src @ '':'' @ showNat (line (startPos token)) @ '':'' @
           showNat (col (startPos token)) @ '' '') @
     msg @
     (case err token of None \<Rightarrow> [] | Some lexError \<Rightarrow> '': '' @ lexError) \<and>
   render src (Offending token msg) = generateConfigError src token msg \<and>
   render src (ScannerFailure e) = e \<and>
   (\<exists>command eof p'.
      Parse p =
        Some ((command, eof,
               map_option (render (inputSource p))
                 (diagnose (endPos (scanner p)) (upcoming p))), p'))"
proof (intro conjI)
  show "generateParseError parser token msg =
        generateConfigError (inputSource parser) token msg"
    by (simp add: generateParseError_def)
  show "generateConfigError src token msg =
     (if src = [] then []
      else src @ '':'' @ showNat (line (startPos token)) @ '':'' @
           showNat (col (startPos token)) @ '' '') @
     msg @
     (case err token of None \<Rightarrow> [] | Some lexError \<Rightarrow> '': '' @ lexError)"
    by (simp add: generateConfigError_shape positionPrefix_def lexSuffix_def)
  show "render src (Offending token msg) = generateConfigError src token msg"
    by (simp add: render_def generateConfigError_shape)
  show "render src (ScannerFailure e) = e"
    by (simp add: render_def)
  show "\<exists>command eof p'.
      Parse p =
        Some ((command, eof,
               map_option (render (inputSource p))
                 (diagnose (endPos (scanner p)) (upcoming p))), p')"
    by (rule Parse_diagnosis)
qed

theorem error_strings_single_format_witness:
  "(\<exists>command eof p'.
      Parse (exampleParser [Inr unterminated]) =
        Some ((command, eof, Some ''grvrc:12:5 Syntax Error: Unterminated string''), p')) \<and>
   (\<exists>command eof p'.
      Parse unlabelled =
        Some ((command, eof, Some ''Syntax Error: Unterminated string''), p')) \<and>
   (\<exists>command eof p'.
      Parse mapThenSet =
        Some ((command, eof, Some ''grvrc:3:14 Expected Word but got Terminator: \";\"''), p')) \<and>
   (\<exists>command eof p'. Parse failureInArguments = Some ((command, eof, Some ''read error''), p')) \<and>
   (\<exists>command eof p'. Parse setFooBar = Some ((command, eof, None), p'))"
proof -
  have d:
    "map_option (render (inputSource (exampleParser [Inr unterminated])))
       (diagnose (endPos (scanner (exampleParser [Inr unterminated])))
          (upcoming (exampleParser [Inr unterminated]))) =
     Some ''grvrc:12:5 Syntax Error: Unterminated string''"
    "map_option (render (inputSource unlabelled))
       (diagnose (endPos (scanner unlabelled)) (upcoming unlabelled)) =
     Some ''Syntax Error: Unterminated string''"
    "map_option (render (inputSource mapThenSet))
       (diagnose (endPos (scanner mapThenSet)) (upcoming mapThenSet)) =
     Some ''grvrc:3:14 Expected Word but got Terminator: \";\"''"
    "map_option (render (inputSource failureInArguments))
       (diagnose (endPos (scanner failureInArguments)) (upcoming failureInArguments)) =
     Some ''read error''"
    "map_option (render (inputSource setFooBar))
       (diagnose (endPos (scanner setFooBar)) (upcoming setFooBar)) = None"
    by code_simp+
  note last = conjunct2 [THEN conjunct2, THEN conjunct2, THEN conjunct2]
  from error_strings_single_format [where p = "exampleParser [Inr unterminated]", THEN last]
    error_strings_single_format [where p = unlabelled, THEN last]
    error_strings_single_format [where p = mapThenSet, THEN last]
    error_strings_single_format [where p = failureInArguments, THEN last]
    error_strings_single_format [where p = setFooBar, THEN last]
  show ?thesis unfolding d by (intro conjI)
qed

subsection \<open>End of input after a variable-arity command\<close>

text \<open>
  C10, as the code has it. A variable-arity command has at least one argument token and its
  accumulation is stopped by the end of the input: an EndOfInput token free of lexical
  errors, after which the scanner goes on answering EndOfInput, or the scanner's answers
  used up. Then the call of \<^verbatim>\<open>Parse\<close> that parses the command returns it with no error and
  \<open>eof = False\<close>, and the following call returns no command, no error and \<open>eof = True\<close>.
\<close>

theorem varArgs_eof_reported_on_next_call:
  assumes "commandDescriptors (value c) = Some d" and "varArgs d"
    and "tokenType c = CtkWord"
    and "upcoming p = Inr c # map Inr args @ rest"
    and "args \<noteq> []"
    and "\<forall>a \<in> set args. err a = None \<and> tokenType a \<noteq> CtkEOF \<and> tokenType a \<noteq> CtkTerminator"
    and "\<forall>r \<in> set rest. \<exists>t. r = Inr t \<and> tokenType t = CtkEOF"
    and "rest \<noteq> [] \<longrightarrow> (\<exists>t. hd rest = Inr t \<and> err t = None)"
  shows "\<exists>command p' p''.
           specCommand (value c) args = Some command \<and>
           Parse p = Some ((Some command, False, None), p') \<and>
           Parse p' = Some ((None, True, None), p'')"
proof -
  have st: "stops rest"
  proof (cases rest)
    case Nil
    then show ?thesis by simp
  next
    case (Cons r rs)
    with assms(7,8) show ?thesis by auto
  qed
  have ok: "\<forall>a \<in> set args. err a = None" using assms(6) by simp
  have shape: "if varArgs d
         then args \<noteq> [] \<and>
              (\<forall>a \<in> set args. tokenType a \<noteq> CtkEOF \<and> tokenType a \<noteq> CtkTerminator) \<and>
              stops rest
         else map tokenType args = tokenTypes d"
    using assms(2,5,6) st by simp
  have th: "value c = themeCommand \<longrightarrow>
           (\<forall>(optionToken, v) \<in> set (pairsOf args). recognised optionToken)"
    using varArgs_not_theme [OF assms(1,2)] by simp
  from Parse_matching_grammar [OF assms(1,3,4) ok shape th] assms(2) obtain command p' where
    sp: "specCommand (value c) args = Some command"
    and P: "Parse p = Some ((Some command, False, None), p')"
    and s: "sig (toks p') = tl rest" by auto
  have eofs: "\<forall>r \<in> set (tl rest). \<exists>t. r = Inr t \<and> tokenType t = CtkEOF"
    using assms(7) by (cases rest) auto
  have "\<exists>p''. Parse p' = Some ((None, True, None), p'')"
  proof (cases "tl rest")
    case Nil
    with s have "upcoming p' = []" by (simp add: upcoming_def)
    from Parse_upcoming_Nil [OF this] show ?thesis by blast
  next
    case (Cons r rs)
    with eofs obtain t where t: "r = Inr t" "tokenType t = CtkEOF" by auto
    with s Cons have "upcoming p' = Inr t # rs"
      by (simp add: upcoming_def isTerminator_def)
    from Parse_upcoming_Inr [OF this] t(2) show ?thesis
      by (auto simp: Parse_switch_def recover_ok)
  qed
  with sp P show ?thesis by blast
qed

theorem varArgs_eof_reported_on_next_call_witness:
  "\<exists>p' p''. Parse vsplitTreeAtEnd =
               Some ((Some (SplitViewCommand CoVertical (exampleToken CtkWord ''tree'') []),
                      False, None), p') \<and>
            Parse p' = Some ((None, True, None), p'')"
proof -
  let ?d = "\<lparr>tokenTypes = [], varArgs = True, constructor = splitViewCommandConstructor\<rparr>"
  let ?c = "exampleToken CtkWord ''vsplit''"
  let ?args = "[exampleToken CtkWord ''tree'']"
  let ?rest = "[Inr (exampleToken CtkEOF [])] :: ScanResult list"
  have h1: "commandDescriptors (value ?c) = Some ?d"
    by (simp add: commandDescriptors_def exampleToken_def commandNames)
  have h2: "varArgs ?d" by simp
  have h3: "tokenType ?c = CtkWord" by (simp add: exampleToken_def)
  have h4: "upcoming vsplitTreeAtEnd = Inr ?c # map Inr ?args @ ?rest"
    by (simp add: upcoming_def sig_def vsplitTreeAtEnd_def exampleParser_def NewConfigParser_def
        significant_def isTerminator_def exampleToken_def)
  have h5: "?args \<noteq> []" by simp
  have h6: "\<forall>a \<in> set ?args. err a = None \<and> tokenType a \<noteq> CtkEOF \<and>
              tokenType a \<noteq> CtkTerminator"
    by (simp add: exampleToken_def)
  have h7: "\<forall>r \<in> set ?rest. \<exists>t. r = Inr t \<and> tokenType t = CtkEOF"
    by (simp add: exampleToken_def)
  have h8: "?rest \<noteq> [] \<longrightarrow> (\<exists>t. hd ?rest = Inr t \<and> err t = None)"
    by (simp add: exampleToken_def)
  have sp: "specCommand (value ?c) ?args =
              Some (SplitViewCommand CoVertical (exampleToken CtkWord ''tree'') [])"
    by (simp add: specCommand_def exampleToken_def commandNames)
  from varArgs_eof_reported_on_next_call [OF h1 h2 h3 h4 h5 h6 h7 h8]
  show ?thesis unfolding sp by simp
qed

text \<open>
  Against C10 as stated: the accumulation of \<^verbatim>\<open>addview\<close> is stopped by the EndOfInput token
  with nothing accumulated, and \<^verbatim>\<open>Parse\<close> returns the usage error and no command.
\<close>

theorem varArgs_without_argument_at_eof:
  "Parse addviewAtEnd =
     Some ((None, False,
            Some ''grvrc:3:14 Invalid addview command. Usage: addview [VIEW] [ARGS...]''),
           exampleParser [])"
  by code_simp

end
